theory Spec2Isabelle
  imports Complex_Main "HOL-Library.Multiset"
begin

section \<open>The catalog export pipeline (worker/src/pipeline.ts)\<close>

text \<open>
  A shallow embedding of the export worker: the pure helpers (price formatting, overlay
  geometry, pricing modes, grouping), the PDF pagination loops, the reconstruction of
  products from a bulk result stream, and the job orchestrator \<open>runCatalogJob\<close> with
  the external world (job store, byte store, network, clock) made explicit.
\<close>

subsection \<open>JavaScript values\<close>

text \<open>
  A JavaScript \<open>number\<close>: the finite values are read as reals (rounding of IEEE doubles
  is not modelled), the three special values are kept apart.
\<close>

datatype number = NaN | PosInf | NegInf | Num real

text \<open>\<open>Math.min(a, b)\<close> and \<open>Math.max(a, b)\<close>: NaN wins, then the infinities.\<close>

fun mathMin2 :: "number \<Rightarrow> number \<Rightarrow> number" where
  "mathMin2 NaN b = NaN"
| "mathMin2 a NaN = NaN"
| "mathMin2 NegInf b = NegInf"
| "mathMin2 a NegInf = NegInf"
| "mathMin2 PosInf b = b"
| "mathMin2 a PosInf = a"
| "mathMin2 (Num a) (Num b) = Num (min a b)"

fun mathMax2 :: "number \<Rightarrow> number \<Rightarrow> number" where
  "mathMax2 NaN b = NaN"
| "mathMax2 a NaN = NaN"
| "mathMax2 PosInf b = PosInf"
| "mathMax2 a PosInf = PosInf"
| "mathMax2 NegInf b = b"
| "mathMax2 a NegInf = a"
| "mathMax2 (Num a) (Num b) = Num (max a b)"

text \<open>\<open>Math.min(...xs)\<close> and \<open>Math.max(...xs)\<close> over an argument list.\<close>

fun mathMin :: "number list \<Rightarrow> number" where
  "mathMin [] = PosInf"
| "mathMin (x # xs) = mathMin2 x (mathMin xs)"

fun mathMax :: "number list \<Rightarrow> number" where
  "mathMax [] = NegInf"
| "mathMax (x # xs) = mathMax2 x (mathMax xs)"

text \<open>\<open>Math.round\<close> rounds to the nearest integer, halves towards plus infinity.\<close>

definition mathRound :: "real \<Rightarrow> int" where
  "mathRound v = \<lfloor>v + 1 / 2\<rfloor>"

text \<open>Truthiness of a string or null: \<open>null\<close>, \<open>undefined\<close> and \<open>""\<close> are falsy.\<close>

fun truthy :: "string option \<Rightarrow> bool" where
  "truthy None = False"
| "truthy (Some s) = (s \<noteq> [])"

text \<open>\<open>a ?? b\<close> on an optional value.\<close>

fun orElse :: "'a option \<Rightarrow> 'a \<Rightarrow> 'a" where
  "orElse None d = d"
| "orElse (Some v) d = v"

text \<open>\<open>s.startsWith(t)\<close>, \<open>s.includes(t)\<close> and \<open>s.endsWith(t)\<close>.\<close>

fun startsWith :: "string \<Rightarrow> string \<Rightarrow> bool" where
  "startsWith s [] = True"
| "startsWith [] (c # cs) = False"
| "startsWith (d # ds) (c # cs) = (d = c \<and> startsWith ds cs)"

fun includesStr :: "string \<Rightarrow> string \<Rightarrow> bool" where
  "includesStr [] t = (t = [])"
| "includesStr (c # cs) t = (startsWith (c # cs) t \<or> includesStr cs t)"

definition endsWith :: "string \<Rightarrow> string \<Rightarrow> bool" where
  "endsWith s t = startsWith (rev s) (rev t)"

text \<open>\<open>xs.join(sep)\<close>.\<close>

fun join :: "string \<Rightarrow> string list \<Rightarrow> string" where
  "join sep [] = []"
| "join sep [x] = x"
| "join sep (x # y # ys) = x @ sep @ join sep (y # ys)"

subsection \<open>Data model\<close>

datatype scopeType = ALL_PRODUCTS | COLLECTIONS | FILTERS | PRODUCTS
datatype pricingMode = DEFAULT_VARIANT_PRICE | MIN_MAX_RANGE | VARIANT_TABLE
datatype layoutType = GRID | ONE_PER_PAGE
datatype gridColumns = Columns2 | Columns3 | Columns4
datatype grouping = NONE | COLLECTION | VENDOR | PRODUCT_TYPE
datatype sortOrder = COLLECTION_ORDER | TITLE_ASC | CREATED_DESC | UPDATED_DESC
datatype pageSize = A4 | LETTER
datatype watermarkOpacity = LIGHT | MEDIUM | HEAVY

text \<open>The declared type of \<open>gridColumns\<close> is \<open>2 | 3 | 4\<close>.\<close>

fun columnsOf :: "gridColumns \<Rightarrow> nat" where
  "columnsOf Columns2 = 2"
| "columnsOf Columns3 = 3"
| "columnsOf Columns4 = 4"

record overlayRect =
  rectX :: number
  rectY :: number
  rectWidth :: number
  rectHeight :: number

record priceOverlay =
  overlayEnabled :: "bool option"
  overlayRectOf :: "overlayRect option"
  backgroundColor :: "string option"
  backgroundOpacity :: "number option"
  textColor :: "string option"
  overlayCurrencyPrefix :: "string option"

record filters =
  filterVendor :: "string list option"
  filterProductType :: "string list option"
  filterTag :: "string list option"

record exportSettings =
  scopeTypeOf :: "scopeType option"
  includeDrafts :: "bool option"
  pricingModeOf :: "pricingMode option"
  currencyPrefix :: "string option"
  layoutTypeOf :: "layoutType option"
  gridColumnsOf :: "gridColumns option"
  groupingOf :: "grouping option"
  sortOrderOf :: "sortOrder option"
  pageSizeOf :: "pageSize option"
  watermarkEnabled :: "bool option"
  watermarkText :: "string option"
  watermarkOpacityOf :: "watermarkOpacity option"
  priceOverlayOf :: "priceOverlay option"
  productIds :: "string list option"
  collectionIds :: "string list option"
  filtersOf :: "filters option"

record productVariant =
  variantId :: "string option"
  variantTitle :: string
  variantPrice :: "string option"

record collectionRef =
  collectionId :: string
  collectionTitle :: string

record productAccumulator =
  accId :: string
  accTitle :: "string option"
  accHandle :: "string option"
  accVendor :: "string option"
  accProductType :: "string option"
  accStatus :: "string option"
  accFeaturedImageUrl :: "string option"
  accCreatedAt :: "string option"
  accUpdatedAt :: "string option"
  accCollections :: "collectionRef list"
  accImageUrls :: "string list"
  accVariants :: "productVariant list"

record priceRow =
  rowTitle :: string
  rowPrice :: "string option"

text \<open>
  The price of a record is \<open>string | {min, max} | {variants} | null\<close>; the code tells the
  shapes apart by \<open>typeof\<close> and by the fields present.
\<close>

datatype price =
  PriceNull
| PriceScalar string
| PriceRange string string
| PriceVariants "priceRow list"

record productRecord =
  productId :: string
  title :: "string option"
  handle :: "string option"
  vendor :: "string option"
  productType :: "string option"
  status :: "string option"
  coverUrl :: "string option"
  createdAt :: "string option"
  updatedAt :: "string option"
  collections :: "collectionRef list"
  localCoverPath :: "string option"
  coverFileName :: "string option"
  priceOf :: price

subsection \<open>Price formatting\<close>

text \<open>
  \<open>formatPrice(price, currencyPrefix)\<close>. \<open>!price\<close> also rejects the empty string, and
  \<open>first?.price ? ... : null\<close> rejects a first variant without a (non-empty) price.
\<close>

fun formatPrice :: "price \<Rightarrow> string option \<Rightarrow> string option" where
  "formatPrice PriceNull cp = None"
| "formatPrice (PriceScalar p) cp =
     (if p = [] then None else Some (orElse cp ''$'' @ p))"
| "formatPrice (PriceRange mn mx) cp =
     (let pre = orElse cp ''$''
      in Some (pre @ mn @ '' - '' @ pre @ mx))"
| "formatPrice (PriceVariants vs) cp =
     (let pre = orElse cp ''$''
      in case vs of
           [] \<Rightarrow> None
         | first # _ \<Rightarrow>
             (if truthy (rowPrice first) then Some (pre @ the (rowPrice first)) else None))"

fun formatPriceValue :: "string option \<Rightarrow> string option \<Rightarrow> string option" where
  "formatPriceValue v cp =
     (if \<not> truthy v then None else Some (orElse cp ''$'' @ the v))"

subsection \<open>Overlay geometry\<close>

text \<open>
  \<open>clamp01(value)\<close>: NaN gives 0, otherwise \<open>Math.min(Math.max(value, 0), 1)\<close>, which is
  1 at plus infinity and 0 at minus infinity.
\<close>

fun clamp01 :: "number \<Rightarrow> real" where
  "clamp01 NaN = 0"
| "clamp01 PosInf = 1"
| "clamp01 NegInf = 0"
| "clamp01 (Num v) = min (max v 0) 1"

record overlayStyle =
  styleX :: int
  styleY :: int
  styleWidth :: int
  styleHeight :: int
  styleBackgroundColor :: string
  styleBackgroundOpacity :: real
  styleTextColor :: string

text \<open>\<open>overlay?.rect?.f ?? d\<close>, and \<open>overlay?.f ?? d\<close>.\<close>

definition rectField :: "priceOverlay option \<Rightarrow> (overlayRect \<Rightarrow> number) \<Rightarrow> real \<Rightarrow> number" where
  "rectField overlay f d =
     (case overlay of
        None \<Rightarrow> Num d
      | Some ov \<Rightarrow> (case overlayRectOf ov of None \<Rightarrow> Num d | Some r \<Rightarrow> f r))"

definition overlayField :: "priceOverlay option \<Rightarrow> (priceOverlay \<Rightarrow> 'a option) \<Rightarrow> 'a \<Rightarrow> 'a" where
  "overlayField overlay f d = (case overlay of None \<Rightarrow> d | Some ov \<Rightarrow> orElse (f ov) d)"

definition resolveOverlayStyle :: "priceOverlay option \<Rightarrow> int \<Rightarrow> int \<Rightarrow> overlayStyle" where
  "resolveOverlayStyle overlay imageWidth imageHeight =
     (let widthRatio = clamp01 (rectField overlay rectWidth (88 / 100));
          heightRatio = clamp01 (rectField overlay rectHeight (2 / 10));
          xRatio = clamp01 (rectField overlay rectX (6 / 100));
          yRatio = clamp01 (rectField overlay rectY (74 / 100));
          width = mathRound (of_int imageWidth * widthRatio);
          height = mathRound (of_int imageHeight * heightRatio);
          x = mathRound (min (max 0 (of_int imageWidth * xRatio)) (of_int imageWidth - of_int width));
          y = mathRound (min (max 0 (of_int imageHeight * yRatio)) (of_int imageHeight - of_int height))
      in \<lparr> styleX = x, styleY = y, styleWidth = width, styleHeight = height,
           styleBackgroundColor = overlayField overlay backgroundColor ''#000000'',
           styleBackgroundOpacity = clamp01 (overlayField overlay backgroundOpacity (Num (55 / 100))),
           styleTextColor = overlayField overlay textColor ''#ffffff'' \<rparr>)"

subsection \<open>Pricing modes\<close>

text \<open>
  \<open>buildProductRecord(product, settings)\<close>. \<open>Number(value)\<close> and \<open>String(number)\<close> are the
  JavaScript built-ins; they are parameters of the model (\<open>jsNumber\<close>, \<open>jsString\<close>).
  \<open>.filter(Boolean)\<close> drops the null and the empty prices.
\<close>

definition firstOf :: "'a list \<Rightarrow> 'a option" where
  "firstOf xs = (case xs of [] \<Rightarrow> None | x # _ \<Rightarrow> Some x)"

definition truthyPrices :: "productVariant list \<Rightarrow> string list" where
  "truthyPrices variants = map the (filter truthy (map variantPrice variants))"

definition resolvePrice ::
  "(string \<Rightarrow> number) \<Rightarrow> (number \<Rightarrow> string) \<Rightarrow> pricingMode \<Rightarrow> productVariant list \<Rightarrow> price" where
  "resolvePrice jsNumber jsString mode variants =
     (case mode of
        DEFAULT_VARIANT_PRICE \<Rightarrow>
          (case firstOf variants of
             None \<Rightarrow> PriceNull
           | Some defaultVariant \<Rightarrow>
               (case variantPrice defaultVariant of None \<Rightarrow> PriceNull | Some p \<Rightarrow> PriceScalar p))
      | MIN_MAX_RANGE \<Rightarrow>
          (let prices = truthyPrices variants
           in if length prices > 0
              then (let numeric = map jsNumber prices
                    in PriceRange (jsString (mathMin numeric)) (jsString (mathMax numeric)))
              else PriceNull)
      | VARIANT_TABLE \<Rightarrow>
          PriceVariants
            (map (\<lambda>variant. \<lparr> rowTitle = variantTitle variant, rowPrice = variantPrice variant \<rparr>)
               variants))"

definition resolveCoverUrl :: "productAccumulator \<Rightarrow> string option" where
  "resolveCoverUrl product =
     (case accFeaturedImageUrl product of
        Some u \<Rightarrow> Some u
      | None \<Rightarrow> firstOf (accImageUrls product))"

definition buildProductRecord ::
  "(string \<Rightarrow> number) \<Rightarrow> (number \<Rightarrow> string) \<Rightarrow> productAccumulator \<Rightarrow> exportSettings \<Rightarrow> productRecord" where
  "buildProductRecord jsNumber jsString product settings =
     \<lparr> productId = accId product,
       title = accTitle product,
       handle = accHandle product,
       vendor = accVendor product,
       productType = accProductType product,
       status = accStatus product,
       coverUrl = resolveCoverUrl product,
       createdAt = accCreatedAt product,
       updatedAt = accUpdatedAt product,
       collections = accCollections product,
       localCoverPath = None,
       coverFileName = None,
       priceOf =
         resolvePrice jsNumber jsString (orElse (pricingModeOf settings) DEFAULT_VARIANT_PRICE)
           (accVariants product) \<rparr>"

subsection \<open>Grouping\<close>

datatype groupedItem = Header string | Product productRecord

text \<open>\<open>selectCollectionTitle(record, settings)\<close>.\<close>

definition selectCollectionTitle :: "productRecord \<Rightarrow> exportSettings \<Rightarrow> string option" where
  "selectCollectionTitle record settings =
     (case collections record of
        [] \<Rightarrow> None
      | c0 # _ \<Rightarrow>
          (case (if length (orElse (collectionIds settings) []) \<noteq> 0
                 then find (\<lambda>collection. collectionId collection \<in> set (orElse (collectionIds settings) []))
                        (collections record)
                 else None) of
             Some match \<Rightarrow> Some (collectionTitle match)
           | None \<Rightarrow> Some (collectionTitle c0)))"

definition groupKey :: "grouping \<Rightarrow> productRecord \<Rightarrow> exportSettings \<Rightarrow> string" where
  "groupKey g record settings =
     (if g = VENDOR then orElse (vendor record) ''Unassigned''
      else if g = PRODUCT_TYPE then orElse (productType record) ''Unassigned''
      else orElse (selectCollectionTitle record settings) ''Unassigned'')"

text \<open>
  \<open>grouped.get(key) ?? []\<close>, \<open>bucket.push(record)\<close>, \<open>grouped.set(key, bucket)\<close> on a
  \<open>Map\<close>, which iterates in the order of first insertion: an association list.
\<close>

fun pushToBucket :: "string \<Rightarrow> productRecord \<Rightarrow> (string \<times> productRecord list) list
    \<Rightarrow> (string \<times> productRecord list) list" where
  "pushToBucket key record [] = [(key, [record])]"
| "pushToBucket key record ((k, bucket) # rest) =
     (if k = key then (k, bucket @ [record]) # rest
      else (k, bucket) # pushToBucket key record rest)"

definition buildGroupedItems :: "productRecord list \<Rightarrow> exportSettings \<Rightarrow> groupedItem list" where
  "buildGroupedItems records settings =
     (let g = orElse (groupingOf settings) NONE
      in if g = NONE then map Product records
         else (let grouped = foldl (\<lambda>m record. pushToBucket (groupKey g record settings) record m)
                               [] records
               in concat (map (\<lambda>(t, group). Header t # map Product group) grouped)))"

subsection \<open>PDF layout\<close>

text \<open>
  A page is its size and the sequence of drawing operations issued on it. Positions,
  colours and fonts of the operations are not modelled; a text carries its size and, for
  the watermark, its opacity.
\<close>

type_synonym bytes = "nat list"

datatype error = Error string

datatype drawOp =
  DrawText string nat "real option"
| DrawImage bytes
| DrawRectangle

record page =
  pageWidth :: nat
  pageHeight :: nat
  pageOps :: "drawOp list"

text \<open>
  What the layout uses of its surroundings: reading a stored cover
  (\<open>fsPromises.readFile\<close>, which may throw), embedding it in the document
  (\<open>embedPng\<close>, \<open>embedJpg\<close>, which throw on bytes they cannot decode), and encoding a
  text in the font of the document. The font is DejaVu Sans when its file can be read and
  embedded, and otherwise the standard Helvetica, which throws on a character outside its
  encoding: \<open>encodeText\<close> gives the error thrown, if any.
\<close>

record pdfLib =
  readFile :: "string \<Rightarrow> error + bytes"
  embedPng :: "bytes \<Rightarrow> bool"
  embedJpg :: "bytes \<Rightarrow> bool"
  encodeText :: "string \<Rightarrow> error option"

text \<open>
  \<open>page.drawText(text, { font, ... })\<close> (and \<open>font.widthOfTextAtSize(text, ...)\<close> before
  it): it throws when the font cannot encode the text, and draws it otherwise.
\<close>

definition drawText :: "pdfLib \<Rightarrow> string \<Rightarrow> nat \<Rightarrow> real option \<Rightarrow> error + drawOp list" where
  "drawText lib t sz alpha =
     (case encodeText lib t of
        Some e \<Rightarrow> Inl e
      | None \<Rightarrow> Inr [DrawText t sz alpha])"

text \<open>Drawing steps one after the other: the first that throws ends them.\<close>

fun drawAll :: "(error + drawOp list) list \<Rightarrow> error + drawOp list" where
  "drawAll [] = Inr []"
| "drawAll (d # ds) =
     (case d of
        Inl e \<Rightarrow> Inl e
      | Inr ops \<Rightarrow>
          (case drawAll ds of
             Inl e \<Rightarrow> Inl e
           | Inr rest \<Rightarrow> Inr (ops @ rest)))"

record watermark =
  watermarkTextOf :: string
  watermarkAlpha :: real

definition watermarkOf :: "exportSettings \<Rightarrow> watermark option" where
  "watermarkOf settings =
     (if watermarkEnabled settings = Some True
      then Some \<lparr> watermarkTextOf = orElse (watermarkText settings) [],
                  watermarkAlpha =
                    (if watermarkOpacityOf settings = Some HEAVY then 35 / 100
                     else if watermarkOpacityOf settings = Some MEDIUM then 2 / 10
                     else 12 / 100) \<rparr>
      else None)"

text \<open>\<open>drawWatermark\<close>: nothing without a watermark or with an empty text.\<close>

definition drawWatermark :: "pdfLib \<Rightarrow> watermark option \<Rightarrow> error + drawOp list" where
  "drawWatermark lib wm =
     (case wm of
        None \<Rightarrow> Inr []
      | Some w \<Rightarrow>
          (if watermarkTextOf w = [] then Inr []
           else drawText lib (watermarkTextOf w) 48 (Some (watermarkAlpha w))))"

definition drawHeaderPage :: "pdfLib \<Rightarrow> string \<Rightarrow> error + drawOp list" where
  "drawHeaderPage lib t = drawText lib t 28 None"

text \<open>
  \<open>drawImageOrPlaceholder\<close>: the read of the cover file stands outside the \<open>try\<close>, so
  its failure leaves the function; a failed embedding falls through to the placeholder.
  The text of the placeholder is drawn in the default font of the page, which encodes it.
\<close>

definition placeholder :: "drawOp list" where
  "placeholder = [DrawRectangle, DrawText ''No image'' 10 None]"

definition drawImageOrPlaceholder :: "pdfLib \<Rightarrow> productRecord \<Rightarrow> error + drawOp list" where
  "drawImageOrPlaceholder lib record =
     (if truthy (localCoverPath record)
      then (case readFile lib (the (localCoverPath record)) of
              Inl e \<Rightarrow> Inl e
            | Inr bs \<Rightarrow>
                (if (if endsWith (the (localCoverPath record)) ''.png''
                     then embedPng lib bs else embedJpg lib bs)
                 then Inr [DrawImage bs]
                 else Inr placeholder))
      else Inr placeholder)"

text \<open>Decimal digits of a natural number, for the \<open>+N more\<close> lines.\<close>

fun showNat :: "nat \<Rightarrow> string" where
  "showNat n =
     (if n < 10 then [char_of (48 + n)]
      else showNat (n div 10) @ [char_of (48 + n mod 10)])"

text \<open>One row of a variant table: the title, and the price when there is one.\<close>

definition drawVariantRow ::
  "pdfLib \<Rightarrow> string option \<Rightarrow> nat \<Rightarrow> priceRow \<Rightarrow> error + drawOp list" where
  "drawVariantRow lib cp sz variant =
     drawAll
       [drawText lib (if rowTitle variant = [] then ''Variant'' else rowTitle variant) sz None,
        (case formatPriceValue (rowPrice variant) cp of
           None \<Rightarrow> Inr []
         | Some priceText \<Rightarrow> if priceText = [] then Inr [] else drawText lib priceText sz None)]"

definition drawPriceLine :: "pdfLib \<Rightarrow> string option \<Rightarrow> nat \<Rightarrow> price \<Rightarrow> error + drawOp list" where
  "drawPriceLine lib cp sz p =
     (case formatPrice p cp of
        None \<Rightarrow> Inr []
      | Some priceText \<Rightarrow> if priceText = [] then Inr [] else drawText lib priceText sz None)"

definition drawOnePerPage :: "pdfLib \<Rightarrow> string option \<Rightarrow> productRecord \<Rightarrow> error + drawOp list" where
  "drawOnePerPage lib cp record =
     drawAll
       ([drawImageOrPlaceholder lib record,
         drawText lib (orElse (title record) ''Untitled'') 18 None]
        @ (case priceOf record of
             PriceVariants variants \<Rightarrow>
               (let rows = take 8 variants
                in [drawText lib ''Variants'' 12 None]
                   @ map (drawVariantRow lib cp 10) rows
                   @ (if length variants > length rows
                      then [drawText lib (''+'' @ showNat (length variants - length rows)
                                          @ '' more variants'') 9 None]
                      else []))
           | p \<Rightarrow> [drawPriceLine lib cp 14 p]))"

definition drawGridCell :: "pdfLib \<Rightarrow> string option \<Rightarrow> productRecord \<Rightarrow> error + drawOp list" where
  "drawGridCell lib cp record =
     drawAll
       ([drawImageOrPlaceholder lib record,
         drawText lib (orElse (title record) ''Untitled'') 10 None]
        @ (case priceOf record of
             PriceVariants variants \<Rightarrow>
               (let rows = take 2 variants
                in map (drawVariantRow lib cp 8) rows
                   @ (if length variants > length rows
                      then [drawText lib (''+'' @ showNat (length variants - length rows)
                                          @ '' more'') 7 None]
                      else []))
           | p \<Rightarrow> [drawPriceLine lib cp 9 p]))"

text \<open>
  The ONE_PER_PAGE loop of \<open>buildPdf\<close>: a page is added for every item, the watermark is
  drawn on it first, then the header title or the product.
\<close>

fun onePerPageLoop ::
  "pdfLib \<Rightarrow> string option \<Rightarrow> watermark option \<Rightarrow> nat \<times> nat \<Rightarrow> groupedItem list
     \<Rightarrow> error + page list" where
  "onePerPageLoop lib cp wm sz [] = Inr []"
| "onePerPageLoop lib cp wm sz (Header t # items) =
     (case drawAll [drawWatermark lib wm, drawHeaderPage lib t] of
        Inl e \<Rightarrow> Inl e
      | Inr ops \<Rightarrow>
          (case onePerPageLoop lib cp wm sz items of
             Inl e \<Rightarrow> Inl e
           | Inr pages \<Rightarrow>
               Inr (\<lparr> pageWidth = fst sz, pageHeight = snd sz, pageOps = ops \<rparr> # pages)))"
| "onePerPageLoop lib cp wm sz (Product record # items) =
     (case drawAll [drawWatermark lib wm, drawOnePerPage lib cp record] of
        Inl e \<Rightarrow> Inl e
      | Inr ops \<Rightarrow>
          (case onePerPageLoop lib cp wm sz items of
             Inl e \<Rightarrow> Inl e
           | Inr pages \<Rightarrow>
               Inr (\<lparr> pageWidth = fst sz, pageHeight = snd sz, pageOps = ops \<rparr> # pages)))"

text \<open>
  The GRID loops. The inner \<open>for (col ...)\<close> stops at the end of the items and at a
  header; its \<open>break\<close> leaves the column loop only, so the row loop runs on (and stops
  again at once). The arguments count the columns and rows still to go.
\<close>

fun gridColumnLoop ::
  "pdfLib \<Rightarrow> string option \<Rightarrow> nat \<Rightarrow> groupedItem list \<Rightarrow> drawOp list
     \<Rightarrow> error + (drawOp list \<times> groupedItem list)" where
  "gridColumnLoop lib cp 0 items ops = Inr (ops, items)"
| "gridColumnLoop lib cp (Suc k) [] ops = Inr (ops, [])"
| "gridColumnLoop lib cp (Suc k) (Header t # items) ops = Inr (ops, Header t # items)"
| "gridColumnLoop lib cp (Suc k) (Product record # items) ops =
     (case drawGridCell lib cp record of
        Inl e \<Rightarrow> Inl e
      | Inr cell \<Rightarrow> gridColumnLoop lib cp k items (ops @ cell))"

fun gridRowLoop ::
  "pdfLib \<Rightarrow> string option \<Rightarrow> nat \<Rightarrow> nat \<Rightarrow> groupedItem list \<Rightarrow> drawOp list
     \<Rightarrow> error + (drawOp list \<times> groupedItem list)" where
  "gridRowLoop lib cp 0 columns items ops = Inr (ops, items)"
| "gridRowLoop lib cp (Suc n) columns items ops =
     (case gridColumnLoop lib cp columns items ops of
        Inl e \<Rightarrow> Inl e
      | Inr (ops', items') \<Rightarrow> gridRowLoop lib cp n columns items' ops')"

text \<open>A page of cells takes at least its first product, the column count being 2, 3 or 4.\<close>

lemma gridColumnLoop_length:
  "gridColumnLoop lib cp k items ops = Inr (ops', items') \<Longrightarrow> length items' \<le> length items"
proof (induction k arbitrary: items ops)
  case 0
  then show ?case by simp
next
  case (Suc k)
  show ?case
  proof (cases items)
    case Nil
    with Suc.prems show ?thesis by simp
  next
    case (Cons item rest)
    show ?thesis
    proof (cases item)
      case (Header t)
      with Cons Suc.prems show ?thesis by simp
    next
      case (Product r)
      with Cons Suc.prems obtain cell where
        "gridColumnLoop lib cp k rest (ops @ cell) = Inr (ops', items')"
        by (auto split: sum.splits)
      from Suc.IH [OF this] Cons show ?thesis by simp
    qed
  qed
qed

lemma gridColumnLoop_progress:
  "gridColumnLoop lib cp (Suc k) (Product record # items) ops = Inr (ops', items')
     \<Longrightarrow> length items' \<le> length items"
  by (auto split: sum.splits dest: gridColumnLoop_length)

lemma gridRowLoop_length:
  "gridRowLoop lib cp n columns items ops = Inr (ops', items') \<Longrightarrow> length items' \<le> length items"
proof (induction n arbitrary: items ops)
  case 0
  then show ?case by simp
next
  case (Suc n)
  from Suc.prems obtain ops1 items1 where
    c: "gridColumnLoop lib cp columns items ops = Inr (ops1, items1)" and
    r: "gridRowLoop lib cp n columns items1 ops1 = Inr (ops', items')"
    by (auto split: sum.splits)
  from gridColumnLoop_length [OF c] Suc.IH [OF r] show ?case by simp
qed

lemma gridRowLoop_progress:
  assumes "gridRowLoop lib cp (Suc n) (Suc k) (Product record # items) ops = Inr (ops', items')"
  shows "length items' \<le> length items"
proof -
  from assms obtain ops1 items1 where
    c: "gridColumnLoop lib cp (Suc k) (Product record # items) ops = Inr (ops1, items1)" and
    r: "gridRowLoop lib cp n (Suc k) items1 ops1 = Inr (ops', items')"
    by (auto split: sum.splits)
  from gridColumnLoop_progress [OF c] gridRowLoop_length [OF r] show ?thesis by simp
qed

lemma columnsOf_Suc: "\<exists>k. columnsOf c = Suc k"
  by (cases c) (simp_all add: numeral_eq_Suc)

text \<open>
  The \<open>while (index < groupedItems.length)\<close> loop of the GRID layout: every round adds a
  page and draws the watermark; a header takes the page alone, otherwise three rows of
  cells are filled.
\<close>

function gridPageLoop ::
  "pdfLib \<Rightarrow> string option \<Rightarrow> watermark option \<Rightarrow> nat \<times> nat \<Rightarrow> gridColumns \<Rightarrow> groupedItem list
     \<Rightarrow> error + page list" where
  "gridPageLoop lib cp wm sz columns [] = Inr []"
| "gridPageLoop lib cp wm sz columns (Header t # items) =
     (case drawAll [drawWatermark lib wm, drawHeaderPage lib t] of
        Inl e \<Rightarrow> Inl e
      | Inr ops \<Rightarrow>
          (case gridPageLoop lib cp wm sz columns items of
             Inl e \<Rightarrow> Inl e
           | Inr pages \<Rightarrow>
               Inr (\<lparr> pageWidth = fst sz, pageHeight = snd sz, pageOps = ops \<rparr> # pages)))"
| "gridPageLoop lib cp wm sz columns (Product record # items) =
     (case drawWatermark lib wm of
        Inl e \<Rightarrow> Inl e
      | Inr mark \<Rightarrow>
          (case gridRowLoop lib cp 3 (columnsOf columns) (Product record # items) mark of
             Inl e \<Rightarrow> Inl e
           | Inr (ops, items') \<Rightarrow>
               (case gridPageLoop lib cp wm sz columns items' of
                  Inl e \<Rightarrow> Inl e
                | Inr pages \<Rightarrow>
                    Inr (\<lparr> pageWidth = fst sz, pageHeight = snd sz, pageOps = ops \<rparr> # pages))))"
  by pat_completeness auto
termination
proof (relation "measure (\<lambda>(lib, cp, wm, sz, columns, items). length items)")
  show "wf (measure (\<lambda>(lib, cp, wm, sz, columns, items). length items))" by simp
next
  fix lib cp wm sz columns t and items :: "groupedItem list"
  show "((lib, cp, wm, sz, columns, items), (lib, cp, wm, sz, columns, Header t # items))
      \<in> measure (\<lambda>(lib, cp, wm, sz, columns, items). length items)"
    by simp
next
  fix lib cp wm sz columns r items mark x2 ops items'
  assume "gridRowLoop lib cp 3 (columnsOf columns) (Product r # items) mark = Inr x2"
    and "(ops, items') = x2"
  then have r: "gridRowLoop lib cp (Suc 2) (columnsOf columns) (Product r # items) mark
      = Inr (ops, items')"
    by (simp add: numeral_3_eq_3)
  obtain k where "columnsOf columns = Suc k" using columnsOf_Suc by blast
  with r gridRowLoop_progress have "length items' \<le> length items" by metis
  then show "((lib, cp, wm, sz, columns, items'), (lib, cp, wm, sz, columns, Product r # items))
      \<in> measure (\<lambda>(lib, cp, wm, sz, columns, items). length items)"
    by simp
qed

text \<open>
  The pages of \<open>buildPdf\<close> for a grouped item sequence, and for the records of a job:
  page size, layout and column count with their defaults, the watermark, then one of
  the two loops.
\<close>

definition layoutPages :: "pdfLib \<Rightarrow> exportSettings \<Rightarrow> groupedItem list \<Rightarrow> error + page list" where
  "layoutPages lib settings groupedItems =
     (let sz = (if orElse (pageSizeOf settings) A4 = LETTER then (612, 792) else (595, 842));
          cp = currencyPrefix settings;
          layout = orElse (layoutTypeOf settings) GRID;
          columns = orElse (gridColumnsOf settings) Columns3;
          wm = watermarkOf settings
      in if layout = ONE_PER_PAGE then onePerPageLoop lib cp wm sz groupedItems
         else gridPageLoop lib cp wm sz columns groupedItems)"

definition buildPdfPages :: "pdfLib \<Rightarrow> productRecord list \<Rightarrow> exportSettings \<Rightarrow> error + page list" where
  "buildPdfPages lib records settings =
     layoutPages lib settings (buildGroupedItems records settings)"

text \<open>
  What drawing an item needs: a cover file that can be read, if the record has one, and
  texts the font can encode. The texts of a product are those of either layout: the
  title, and the price line or the rows of the variant table with their \<open>+N more\<close> lines.
\<close>

fun coverReadable :: "pdfLib \<Rightarrow> groupedItem \<Rightarrow> bool" where
  "coverReadable lib (Header t) = True"
| "coverReadable lib (Product r) =
     (if truthy (localCoverPath r) then isl (readFile lib (the (localCoverPath r))) = False else True)"

definition variantTexts :: "string option \<Rightarrow> priceRow \<Rightarrow> string list" where
  "variantTexts cp variant =
     (if rowTitle variant = [] then ''Variant'' else rowTitle variant)
     # (case formatPriceValue (rowPrice variant) cp of
          None \<Rightarrow> []
        | Some priceText \<Rightarrow> if priceText = [] then [] else [priceText])"

definition recordTexts :: "string option \<Rightarrow> productRecord \<Rightarrow> string list" where
  "recordTexts cp r =
     orElse (title r) ''Untitled''
     # (case priceOf r of
          PriceVariants variants \<Rightarrow>
            ''Variants'' # concat (map (variantTexts cp) variants)
            @ (if length variants > 8
               then [''+'' @ showNat (length variants - 8) @ '' more variants''] else [])
            @ (if length variants > 2
               then [''+'' @ showNat (length variants - 2) @ '' more''] else [])
        | p \<Rightarrow>
            (case formatPrice p cp of
               None \<Rightarrow> []
             | Some priceText \<Rightarrow> if priceText = [] then [] else [priceText]))"

fun encodable :: "pdfLib \<Rightarrow> string option \<Rightarrow> groupedItem \<Rightarrow> bool" where
  "encodable lib cp (Header t) = (encodeText lib t = None)"
| "encodable lib cp (Product r) = list_all (\<lambda>t. encodeText lib t = None) (recordTexts cp r)"

definition watermarkEncodable :: "pdfLib \<Rightarrow> exportSettings \<Rightarrow> bool" where
  "watermarkEncodable lib settings =
     (case watermarkOf settings of
        None \<Rightarrow> True
      | Some w \<Rightarrow> watermarkTextOf w = [] \<or> encodeText lib (watermarkTextOf w) = None)"

subsection \<open>Reconstruction of products from a bulk result\<close>

text \<open>
  A line of the result file after \<open>JSON.parse\<close>: the fields the code reads. \<open>price\<close> is
  tested against \<open>undefined\<close>, so its absence and the value \<open>null\<close> are kept apart.
\<close>

datatype jsonPrice = PriceUndefined | PriceIsNull | PriceString string

record bulkRecord =
  lineParentId :: "string option"
  lineId :: "string option"
  lineTitle :: "string option"
  lineHandle :: "string option"
  lineVendor :: "string option"
  lineProductType :: "string option"
  lineStatus :: "string option"
  lineCreatedAt :: "string option"
  lineUpdatedAt :: "string option"
  lineFeaturedImageUrl :: "string option"
  lineFirstImageUrl :: "string option"
  linePrice :: jsonPrice
  lineUrl :: "string option"

text \<open>A line of the stream: empty (skipped), not valid JSON (\<open>JSON.parse\<close> throws), or a record.\<close>

datatype bulkLine = EmptyLine | Malformed | Json bulkRecord

text \<open>
  The \<open>Map\<close> from product id to accumulator, in insertion order. \<open>products.set\<close> keeps the
  place of a key already present.
\<close>

type_synonym productMap = "(string \<times> productAccumulator) list"

fun mapSet :: "string \<Rightarrow> productAccumulator \<Rightarrow> productMap \<Rightarrow> productMap" where
  "mapSet k v [] = [(k, v)]"
| "mapSet k v ((k', v') # rest) =
     (if k' = k then (k, v) # rest else (k', v') # mapSet k v rest)"

definition emptyAccumulator :: "string \<Rightarrow> productAccumulator" where
  "emptyAccumulator k =
     \<lparr> accId = k, accTitle = None, accHandle = None, accVendor = None, accProductType = None,
       accStatus = None, accFeaturedImageUrl = None, accCreatedAt = None, accUpdatedAt = None,
       accCollections = [], accImageUrls = [], accVariants = [] \<rparr>"

text \<open>\<open>products.get(id) ?? { id, collections: [], imageUrls: [], variants: [] }\<close>.\<close>

definition getOrCreate :: "productMap \<Rightarrow> string \<Rightarrow> productAccumulator" where
  "getOrCreate products k =
     (case map_of products k of Some product \<Rightarrow> product | None \<Rightarrow> emptyAccumulator k)"

text \<open>
  The body of the \<open>for await\<close> loop of \<open>parseBulkResults\<close> for one parsed line: a
  top-level product, a variant, and then (both tests are made) an image and a collection.
\<close>

definition applyRecord :: "bulkRecord \<Rightarrow> productMap \<Rightarrow> productMap" where
  "applyRecord record products =
     (if \<not> truthy (lineParentId record) \<and> truthy (lineId record)
      then (let k = the (lineId record);
                product = (getOrCreate products k)
                  \<lparr> accTitle := lineTitle record, accHandle := lineHandle record,
                    accVendor := lineVendor record, accProductType := lineProductType record,
                    accStatus := lineStatus record, accCreatedAt := lineCreatedAt record,
                    accUpdatedAt := lineUpdatedAt record,
                    accFeaturedImageUrl := lineFeaturedImageUrl record \<rparr>;
                product' = (if truthy (lineFirstImageUrl record)
                            then product\<lparr> accImageUrls :=
                                   accImageUrls product @ [the (lineFirstImageUrl record)] \<rparr>
                            else product)
            in mapSet k product' products)
      else if truthy (lineParentId record) \<and> linePrice record \<noteq> PriceUndefined
      then (let k = the (lineParentId record);
                product = getOrCreate products k
            in mapSet k
                 (product\<lparr> accVariants := accVariants product @
                      [\<lparr> variantId = lineId record,
                         variantTitle = orElse (lineTitle record) [],
                         variantPrice = (case linePrice record of
                                           PriceString p \<Rightarrow> Some p | _ \<Rightarrow> None) \<rparr>] \<rparr>)
                 products)
      else (let products1 =
                  (if truthy (lineParentId record) \<and> truthy (lineUrl record)
                   then (let k = the (lineParentId record);
                             product = getOrCreate products k
                         in mapSet k
                              (product\<lparr> accImageUrls := accImageUrls product @ [the (lineUrl record)] \<rparr>)
                              products)
                   else products)
            in if truthy (lineParentId record) \<and> truthy (lineTitle record)
                  \<and> truthy (lineId record) \<and> includesStr (the (lineId record)) ''Collection''
               then (let k = the (lineParentId record);
                         product = getOrCreate products1 k
                     in mapSet k
                          (product\<lparr> accCollections := accCollections product @
                               [\<lparr> collectionId = the (lineId record),
                                  collectionTitle = the (lineTitle record) \<rparr>] \<rparr>)
                          products1)
               else products1))"

fun parseLines :: "bulkLine list \<Rightarrow> productMap \<Rightarrow> error + productMap" where
  "parseLines [] products = Inr products"
| "parseLines (EmptyLine # ls) products = parseLines ls products"
| "parseLines (Malformed # ls) products = Inl (Error ''Unexpected token in JSON'')"
| "parseLines (Json record # ls) products = parseLines ls (applyRecord record products)"

text \<open>The loop over the lines of a downloaded result, and \<open>Array.from(products.values())\<close>.\<close>

definition parseBulkLines :: "bulkLine list \<Rightarrow> error + productAccumulator list" where
  "parseBulkLines ls =
     (case parseLines ls [] of Inl e \<Rightarrow> Inl e | Inr products \<Rightarrow> Inr (map snd products))"

subsection \<open>What a line contributes\<close>

text \<open>
  The product a line writes to, if any, and what it adds there. These are used to state
  what \<open>parseBulkResults\<close> returns; the body of the loop above does not use them.
\<close>

definition isTopLevel :: "bulkRecord \<Rightarrow> bool" where
  "isTopLevel r = (\<not> truthy (lineParentId r) \<and> truthy (lineId r))"

definition isVariantLine :: "bulkRecord \<Rightarrow> bool" where
  "isVariantLine r = (truthy (lineParentId r) \<and> linePrice r \<noteq> PriceUndefined)"

definition isImageLine :: "bulkRecord \<Rightarrow> bool" where
  "isImageLine r = (truthy (lineParentId r) \<and> linePrice r = PriceUndefined \<and> truthy (lineUrl r))"

definition isCollectionLine :: "bulkRecord \<Rightarrow> bool" where
  "isCollectionLine r =
     (truthy (lineParentId r) \<and> linePrice r = PriceUndefined \<and> truthy (lineTitle r)
      \<and> truthy (lineId r) \<and> includesStr (the (lineId r)) ''Collection'')"

definition lineKey :: "bulkRecord \<Rightarrow> string option" where
  "lineKey r =
     (if isTopLevel r then lineId r
      else if isVariantLine r \<or> isImageLine r \<or> isCollectionLine r then lineParentId r
      else None)"

definition variantsOfLine :: "bulkRecord \<Rightarrow> productVariant list" where
  "variantsOfLine r =
     (if isVariantLine r
      then [\<lparr> variantId = lineId r, variantTitle = orElse (lineTitle r) [],
               variantPrice = (case linePrice r of PriceString p \<Rightarrow> Some p | _ \<Rightarrow> None) \<rparr>]
      else [])"

definition imagesOfLine :: "bulkRecord \<Rightarrow> string list" where
  "imagesOfLine r =
     (if isTopLevel r then (if truthy (lineFirstImageUrl r) then [the (lineFirstImageUrl r)] else [])
      else if isImageLine r then [the (lineUrl r)]
      else [])"

definition collectionsOfLine :: "bulkRecord \<Rightarrow> collectionRef list" where
  "collectionsOfLine r =
     (if isCollectionLine r
      then [\<lparr> collectionId = the (lineId r), collectionTitle = the (lineTitle r) \<rparr>]
      else [])"

text \<open>The step of the loop seen from the one accumulator it writes.\<close>

definition applyToAccumulator :: "bulkRecord \<Rightarrow> productAccumulator \<Rightarrow> productAccumulator" where
  "applyToAccumulator r a =
     (if isTopLevel r
      then a\<lparr> accTitle := lineTitle r, accHandle := lineHandle r, accVendor := lineVendor r,
              accProductType := lineProductType r, accStatus := lineStatus r,
              accCreatedAt := lineCreatedAt r, accUpdatedAt := lineUpdatedAt r,
              accFeaturedImageUrl := lineFeaturedImageUrl r,
              accImageUrls := accImageUrls a @ imagesOfLine r \<rparr>
      else a\<lparr> accVariants := accVariants a @ variantsOfLine r,
              accImageUrls := accImageUrls a @ imagesOfLine r,
              accCollections := accCollections a @ collectionsOfLine r \<rparr>)"

fun recordsOf :: "bulkLine list \<Rightarrow> bulkRecord list" where
  "recordsOf [] = []"
| "recordsOf (Json r # ls) = r # recordsOf ls"
| "recordsOf (l # ls) = recordsOf ls"

text \<open>The top-level lines of a product, and the fields a top-level line sets.\<close>

definition topLevelLinesOf :: "string \<Rightarrow> bulkLine list \<Rightarrow> bulkRecord list" where
  "topLevelLinesOf p ls = filter (\<lambda>r. isTopLevel r \<and> lineId r = Some p) (recordsOf ls)"

definition scalarFields :: "productAccumulator \<Rightarrow> string option list" where
  "scalarFields a =
     [accTitle a, accHandle a, accVendor a, accProductType a, accStatus a, accCreatedAt a,
      accUpdatedAt a, accFeaturedImageUrl a]"

definition lineScalars :: "bulkRecord \<Rightarrow> string option list" where
  "lineScalars r =
     [lineTitle r, lineHandle r, lineVendor r, lineProductType r, lineStatus r, lineCreatedAt r,
      lineUpdatedAt r, lineFeaturedImageUrl r]"

subsection \<open>Selection predicate\<close>

text \<open>\<open>escapeQuery\<close>: a backslash before every backslash and every double quote.\<close>

definition escapeQuery :: "string \<Rightarrow> string" where
  "escapeQuery v =
     concat (map (\<lambda>c. if c = CHR 0x5C then [CHR 0x5C, CHR 0x5C]
                        else if c = CHR 0x22 then [CHR 0x5C, CHR 0x22] else [c]) v)"

text \<open>
  \<open>extractLegacyProductId\<close>: the digits of the first \<open>gid://shopify/Product/\<close> that is
  followed by a digit.
\<close>

definition isDigit :: "char \<Rightarrow> bool" where
  "isDigit c = (c \<in> set ''0123456789'')"

fun extractLegacyProductId :: "string \<Rightarrow> string option" where
  "extractLegacyProductId [] = None"
| "extractLegacyProductId (c # cs) =
     (let digits = takeWhile isDigit (drop (length ''gid://shopify/Product/'') (c # cs))
      in if startsWith (c # cs) ''gid://shopify/Product/'' \<and> digits \<noteq> [] then Some digits
         else extractLegacyProductId cs)"

definition buildOrClause :: "string \<Rightarrow> string list option \<Rightarrow> string option" where
  "buildOrClause field vs =
     (case vs of
        None \<Rightarrow> None
      | Some values \<Rightarrow>
          (if length values = 0 then None
           else Some (''('' @ join '' OR ''
                        (map (\<lambda>v. field @ '':'' @ [CHR 0x22] @ escapeQuery v @ [CHR 0x22]) values)
                      @ '')'')))"

definition optionalClause :: "string option \<Rightarrow> string list" where
  "optionalClause c = (case c of None \<Rightarrow> [] | Some s \<Rightarrow> if s = [] then [] else [s])"

definition buildProductQuery :: "exportSettings \<Rightarrow> bool \<Rightarrow> string" where
  "buildProductQuery settings drafts =
     join '' AND ''
       ([if drafts then ''(status:active OR status:draft)'' else ''status:active'']
        @ (if scopeTypeOf settings = Some COLLECTIONS \<and> orElse (collectionIds settings) [] \<noteq> []
           then [''('' @ join '' OR ''
                   (map (\<lambda>i. ''collection_id:'' @ escapeQuery i) (orElse (collectionIds settings) []))
                 @ '')'']
           else [])
        @ (if scopeTypeOf settings = Some PRODUCTS \<and> orElse (productIds settings) [] \<noteq> []
           then [''('' @ join '' OR ''
                   (map (\<lambda>i. ''id:'' @ orElse (extractLegacyProductId i) (escapeQuery i))
                      (orElse (productIds settings) []))
                 @ '')'']
           else [])
        @ (case (if scopeTypeOf settings = Some FILTERS then filtersOf settings else None) of
             None \<Rightarrow> []
           | Some f \<Rightarrow>
               optionalClause (buildOrClause ''vendor'' (filterVendor f))
               @ optionalClause (buildOrClause ''product_type'' (filterProductType f))
               @ optionalClause (buildOrClause ''tag'' (filterTag f))))"

definition shouldIncludeCollections :: "exportSettings \<Rightarrow> bool" where
  "shouldIncludeCollections settings =
     (groupingOf settings = Some COLLECTION \<or> scopeTypeOf settings = Some COLLECTIONS)"

text \<open>
  The GraphQL documents are fixed texts around a few parameters; a request is kept as
  its kind and parameters. The bulk query and the paginated query both carry the
  selection predicate and whether collections are asked for.
\<close>

record bulkQuery =
  bulkScopeQuery :: string
  bulkWithCollections :: bool

datatype gqlRequest =
  RunBulkOperation bulkQuery
| PollBulkOperation string
| ProductsPage string bool "string option"

definition buildBulkQuery :: "exportSettings \<Rightarrow> bulkQuery" where
  "buildBulkQuery settings =
     \<lparr> bulkScopeQuery = buildProductQuery settings (orElse (includeDrafts settings) False),
       bulkWithCollections = shouldIncludeCollections settings \<rparr>"

subsection \<open>Sorting\<close>

text \<open>
  \<open>Array.prototype.sort\<close> is stable; with the comparator \<open>cmp\<close> it is modelled as an
  insertion sort that keeps equal elements in their order. \<open>localeCompare\<close> is a parameter.
\<close>

fun insertBy :: "('a \<Rightarrow> 'a \<Rightarrow> int) \<Rightarrow> 'a \<Rightarrow> 'a list \<Rightarrow> 'a list" where
  "insertBy cmp x [] = [x]"
| "insertBy cmp x (y # ys) = (if cmp x y \<le> 0 then x # y # ys else y # insertBy cmp x ys)"

definition sortBy :: "('a \<Rightarrow> 'a \<Rightarrow> int) \<Rightarrow> 'a list \<Rightarrow> 'a list" where
  "sortBy cmp xs = foldr (insertBy cmp) xs []"

definition sortRecords ::
  "(string \<Rightarrow> string \<Rightarrow> int) \<Rightarrow> productRecord list \<Rightarrow> exportSettings \<Rightarrow> productRecord list" where
  "sortRecords localeCompare records settings =
     (let order = orElse (sortOrderOf settings) TITLE_ASC
      in if order = TITLE_ASC
         then sortBy (\<lambda>a b. localeCompare (orElse (title a) []) (orElse (title b) [])) records
         else if order = CREATED_DESC
         then sortBy (\<lambda>a b. localeCompare (orElse (createdAt b) []) (orElse (createdAt a) [])) records
         else if order = UPDATED_DESC
         then sortBy (\<lambda>a b. localeCompare (orElse (updatedAt b) []) (orElse (updatedAt a) [])) records
         else records)"

subsection \<open>The external world\<close>

datatype jobStatus = QUEUED | RUNNING | COMPLETED | FAILED | PARTIAL
datatype issueType = MISSING_COVER | IMAGE_DOWNLOAD_FAILED | PRODUCT_SKIPPED
datatype issueSeverity = WARN | ERROR
datatype fileType = PDF | IMAGES_ZIP | MANIFEST

record counts =
  productsTotal :: "nat option"
  productsProcessed :: "nat option"
  imagesDownloaded :: "nat option"
  imagesFailed :: "nat option"

record job =
  jobShopDomain :: string
  settingsJson :: "exportSettings option"
  jobStatusOf :: jobStatus
  progressPercent :: nat
  currentStep :: "string option"
  countsJson :: "counts option"
  errorSummary :: "string option"
  startedAt :: "nat option"
  finishedAt :: "nat option"

text \<open>The \<open>data\<close> of a \<open>prisma.job.update\<close>: the fields it sets.\<close>

record jobUpdate =
  setStatus :: "jobStatus option"
  setProgressPercent :: "nat option"
  setCurrentStep :: "string option"
  setCountsJson :: "counts option"
  setStartedAt :: "nat option"
  setFinishedAt :: "nat option"
  setErrorSummary :: "string option option"

definition noUpdate :: jobUpdate where
  "noUpdate = \<lparr> setStatus = None, setProgressPercent = None, setCurrentStep = None,
                 setCountsJson = None, setStartedAt = None, setFinishedAt = None,
                 setErrorSummary = None \<rparr>"

definition applyUpdate :: "jobUpdate \<Rightarrow> job \<Rightarrow> job" where
  "applyUpdate u j =
     j\<lparr> jobStatusOf := orElse (setStatus u) (jobStatusOf j),
        progressPercent := orElse (setProgressPercent u) (progressPercent j),
        currentStep := (case setCurrentStep u of None \<Rightarrow> currentStep j | Some s \<Rightarrow> Some s),
        countsJson := (case setCountsJson u of None \<Rightarrow> countsJson j | Some c \<Rightarrow> Some c),
        startedAt := (case setStartedAt u of None \<Rightarrow> startedAt j | Some t \<Rightarrow> Some t),
        finishedAt := (case setFinishedAt u of None \<Rightarrow> finishedAt j | Some t \<Rightarrow> Some t),
        errorSummary := orElse (setErrorSummary u) (errorSummary j) \<rparr>"

record jobIssue =
  issueJobId :: string
  issueSeverityOf :: issueSeverity
  issueTypeOf :: issueType
  issueProductId :: string
  issueProductHandle :: "string option"
  issueDetails :: "(string \<times> string) option"

record jobFile =
  fileJobId :: string
  fileTypeOf :: fileType
  fileStorageKey :: string
  fileContentType :: string
  fileSizeBytes :: nat
  fileExpiresAt :: nat

record session =
  sessionShop :: string
  sessionAccessToken :: string

text \<open>The bodies of GraphQL responses, as far as the code reads them.\<close>

record runPayload =
  bulkOperationId :: "string option"
  userErrors :: "string list"

record bulkNode =
  nodeStatus :: string
  nodeUrl :: "string option"

record productNode =
  nodeId :: string
  nodeTitle :: "string option"
  nodeHandle :: "string option"
  nodeVendor :: "string option"
  nodeProductType :: "string option"
  nodeProductStatus :: "string option"
  nodeCreatedAt :: "string option"
  nodeUpdatedAt :: "string option"
  nodeFeaturedImageUrl :: "string option"
  nodeImages :: "string option list option"
  nodeVariants :: "productVariant list option"
  nodeCollections :: "collectionRef list option"

record productsPayload =
  pageEdges :: "(string \<times> productNode) list"
  pageHasNextPage :: "bool option"

record gqlBody =
  bodyRunQuery :: "runPayload option"
  bodyNode :: "bulkNode option"
  bodyProducts :: "productsPayload option"

text \<open>
  The result of \<open>fetch(url)\<close>: it rejects, or gives a response. A response body is read
  as lines (the bulk result) or as bytes (a cover; \<open>None\<close> when reading it throws).
\<close>

record httpResponse =
  responseOk :: bool
  responseContentType :: "string option"
  responseLines :: "bulkLine list option"
  responseBytes :: "bytes option"

datatype httpResult = FetchRejected | Response httpResponse

record manifest =
  manifestJobId :: string
  manifestShopDomain :: string
  manifestGeneratedAt :: nat
  manifestSettings :: exportSettings
  manifestProducts :: "productRecord list"

text \<open>What is drawn over a cover: the arguments of \<open>buildPriceOverlaySvg\<close>.\<close>

record overlaySvg =
  svgWidth :: int
  svgHeight :: int
  svgStyle :: overlayStyle
  svgFontSize :: int
  svgPriceText :: string

text \<open>
  The surroundings of a run, fixed beforehand: what the \<open>n\<close>-th external call meets
  (a failure of the database or file system, the answer of the shop, of a URL, the time
  the call takes), the library functions the pipeline relies on, the font of the document,
  and, while several calls are pending at once, which of them settles as the \<open>n\<close>-th
  call (\<open>schedule\<close>, counted among the pending ones).
\<close>

record env =
  loadSession :: "string \<Rightarrow> session option"
  failure :: "nat \<Rightarrow> error option"
  graphql :: "nat \<Rightarrow> session \<Rightarrow> gqlRequest \<Rightarrow> error + gqlBody"
  http :: "nat \<Rightarrow> string \<Rightarrow> httpResult"
  latency :: "nat \<Rightarrow> nat"
  jsNumberOf :: "string \<Rightarrow> number"
  jsStringOf :: "number \<Rightarrow> string"
  localeCompareOf :: "string \<Rightarrow> string \<Rightarrow> int"
  canEmbedPng :: "bytes \<Rightarrow> bool"
  canEmbedJpg :: "bytes \<Rightarrow> bool"
  fontError :: "string \<Rightarrow> error option"
  schedule :: "nat \<Rightarrow> nat"
  pdfSave :: "page list \<Rightarrow> bytes"
  jsonBytes :: "manifest \<Rightarrow> bytes"
  imageMetadata :: "bytes \<Rightarrow> error + (int option \<times> int option)"
  composite :: "bytes \<Rightarrow> overlaySvg \<Rightarrow> bool \<Rightarrow> error + bytes"
  zipBytes :: "(string \<times> bytes) list \<Rightarrow> bytes"

text \<open>
  The state a run changes: the job rows, the log of the updates made to them, the issues
  and files recorded, the byte store, the GraphQL requests sent, the clock (milliseconds)
  and the number of external calls made so far.
\<close>

record world =
  jobs :: "string \<Rightarrow> job option"
  jobWrites :: "(string \<times> jobUpdate) list"
  jobIssues :: "jobIssue list"
  jobFiles :: "jobFile list"
  files :: "string \<Rightarrow> bytes option"
  requests :: "gqlRequest list"
  clock :: nat
  tick :: nat

text \<open>
  A computation returns a value, throws, or is cut off by the bound put on the one loop
  that has none of its own (the pagination); each with the world it leaves.
\<close>

datatype 'a outcome = Returns 'a world | Throws error world | OutOfFuel world

type_synonym 'a io = "world \<Rightarrow> 'a outcome"

fun worldOf :: "'a outcome \<Rightarrow> world" where
  "worldOf (Returns a w) = w"
| "worldOf (Throws e w) = w"
| "worldOf (OutOfFuel w) = w"

definition bindIO :: "'a io \<Rightarrow> ('a \<Rightarrow> 'b io) \<Rightarrow> 'b io" where
  "bindIO m f w =
     (case m w of
        Returns a w' \<Rightarrow> f a w'
      | Throws e w' \<Rightarrow> Throws e w'
      | OutOfFuel w' \<Rightarrow> OutOfFuel w')"

text \<open>\<open>try { m } catch (error) { h }\<close>.\<close>

definition catchIO :: "'a io \<Rightarrow> (error \<Rightarrow> 'a io) \<Rightarrow> 'a io" where
  "catchIO m h w =
     (case m w of
        Returns a w' \<Rightarrow> Returns a w'
      | Throws e w' \<Rightarrow> h e w'
      | OutOfFuel w' \<Rightarrow> OutOfFuel w')"

text \<open>An external call takes its time and is counted.\<close>

definition called :: "env \<Rightarrow> world \<Rightarrow> world" where
  "called ev w = w\<lparr> clock := clock w + latency ev (tick w), tick := tick w + 1 \<rparr>"

text \<open>A call to the database or the file system: it may fail before it has any effect.\<close>

definition guarded :: "env \<Rightarrow> 'a io \<Rightarrow> 'a io" where
  "guarded ev m w =
     (case failure ev (tick w) of
        Some e \<Rightarrow> Throws e (called ev w)
      | None \<Rightarrow> m (called ev w))"

definition jobFindUnique :: "env \<Rightarrow> string \<Rightarrow> job option io" where
  "jobFindUnique ev ident = guarded ev (\<lambda>w. Returns (jobs w ident) w)"

definition jobUpdateIO :: "env \<Rightarrow> string \<Rightarrow> jobUpdate \<Rightarrow> unit io" where
  "jobUpdateIO ev ident u =
     guarded ev (\<lambda>w. case jobs w ident of
                       None \<Rightarrow> Throws (Error ''Record to update not found'') w
                     | Some j \<Rightarrow>
                         Returns () (w\<lparr> jobs := (jobs w)(ident \<mapsto> applyUpdate u j),
                                        jobWrites := jobWrites w @ [(ident, u)] \<rparr>))"

definition jobIssueCreate :: "env \<Rightarrow> jobIssue \<Rightarrow> unit io" where
  "jobIssueCreate ev issue = guarded ev (\<lambda>w. Returns () (w\<lparr> jobIssues := jobIssues w @ [issue] \<rparr>))"

definition jobFileCreate :: "env \<Rightarrow> jobFile \<Rightarrow> jobFile io" where
  "jobFileCreate ev file = guarded ev (\<lambda>w. Returns file (w\<lparr> jobFiles := jobFiles w @ [file] \<rparr>))"

text \<open>\<open>localStorageAdapter.write\<close> (it returns the key) and \<open>localStorageAdapter.read\<close>.\<close>

definition storageWrite :: "env \<Rightarrow> string \<Rightarrow> bytes \<Rightarrow> string io" where
  "storageWrite ev path bs = guarded ev (\<lambda>w. Returns path (w\<lparr> files := (files w)(path \<mapsto> bs) \<rparr>))"

definition storageRead :: "env \<Rightarrow> string \<Rightarrow> bytes io" where
  "storageRead ev path =
     guarded ev (\<lambda>w. case files w path of
                       None \<Rightarrow> Throws (Error ''ENOENT'') w
                     | Some bs \<Rightarrow> Returns bs w)"

text \<open>
  \<open>client.query\<close> of \<open>createGraphqlClient\<close>: the request is sent; a rejected fetch, a body
  that is not JSON and a response that is not ok all throw.
\<close>

definition clientQuery :: "env \<Rightarrow> session \<Rightarrow> gqlRequest \<Rightarrow> gqlBody io" where
  "clientQuery ev client req w =
     (let w' = (called ev w)\<lparr> requests := requests w @ [req] \<rparr>
      in case graphql ev (tick w) client req of
           Inl e \<Rightarrow> Throws e w'
         | Inr body \<Rightarrow> Returns body w')"

definition fetchUrl :: "env \<Rightarrow> string \<Rightarrow> httpResult io" where
  "fetchUrl ev url w = Returns (http ev (tick w) url) (called ev w)"

definition sleep :: "nat \<Rightarrow> unit io" where
  "sleep ms w = Returns () (w\<lparr> clock := clock w + ms \<rparr>)"

definition returnIO :: "'a \<Rightarrow> 'a io" where
  "returnIO a w = Returns a w"

definition throwIO :: "error \<Rightarrow> 'a io" where
  "throwIO e w = Throws e w"

text \<open>\<open>new Date()\<close>, \<open>Date.now()\<close>.\<close>

definition withClock :: "(nat \<Rightarrow> 'a io) \<Rightarrow> 'a io" where
  "withClock f w = f (clock w) w"

subsection \<open>Product extraction\<close>

definition bulkPollIntervalMs :: nat where
  "bulkPollIntervalMs = 2000"

definition bulkMaxWaitMs :: nat where
  "bulkMaxWaitMs = 10 * 60 * 1000"

definition retentionDays :: nat where
  "retentionDays = 30"

definition startBulkOperation :: "env \<Rightarrow> session \<Rightarrow> bulkQuery \<Rightarrow> string io" where
  "startBulkOperation ev client q =
     bindIO (clientQuery ev client (RunBulkOperation q))
       (\<lambda>body. case bodyRunQuery body of
                 None \<Rightarrow> throwIO (Error ''Bulk operation failed to start'')
               | Some payload \<Rightarrow>
                   (if userErrors payload \<noteq> []
                    then throwIO (Error (let message = join '', '' (userErrors payload)
                                         in if message = [] then ''Bulk operation failed to start''
                                            else message))
                    else (case bulkOperationId payload of
                            None \<Rightarrow> throwIO (Error ''Cannot read properties of null'')
                          | Some i \<Rightarrow> returnIO i)))"

lemma clientQuery_clock:
  "clientQuery ev client req w = Returns body w' \<Longrightarrow> clock w \<le> clock w'"
  by (auto simp: clientQuery_def called_def Let_def split: sum.splits)

text \<open>
  The polling loop of \<open>waitForBulkResult\<close>. Every round that goes on sleeps for the poll
  interval, so the loop ends by the timeout at the latest.
\<close>

function waitLoop :: "env \<Rightarrow> session \<Rightarrow> string \<Rightarrow> nat \<Rightarrow> string io" where
  "waitLoop ev client bulkId started w =
     (if clock w - started > bulkMaxWaitMs then Throws (Error ''Bulk operation timed out'') w
      else (case clientQuery ev client (PollBulkOperation bulkId) w of
              Throws e w' \<Rightarrow> Throws e w'
            | OutOfFuel w' \<Rightarrow> OutOfFuel w'
            | Returns body w' \<Rightarrow>
                (case bodyNode body of
                   None \<Rightarrow> Throws (Error ''Bulk operation missing'') w'
                 | Some node \<Rightarrow>
                     (if nodeStatus node = ''COMPLETED'' \<and> truthy (nodeUrl node)
                      then Returns (the (nodeUrl node)) w'
                      else if nodeStatus node = ''FAILED'' \<or> nodeStatus node = ''CANCELED''
                      then Throws (Error (''Bulk operation '' @ nodeStatus node)) w'
                      else waitLoop ev client bulkId started
                             (w'\<lparr> clock := clock w' + bulkPollIntervalMs \<rparr>)))))"
  by pat_completeness auto
termination
proof (relation "measure (\<lambda>(ev, client, bulkId, started, w). started + bulkMaxWaitMs + 1 - clock w)")
  show "wf (measure (\<lambda>(ev, client, bulkId, started, w). started + bulkMaxWaitMs + 1 - clock w))"
    by simp
next
  fix ev client bulkId started w body w' node
  assume "\<not> bulkMaxWaitMs < clock w - started"
    and "clientQuery ev client (PollBulkOperation bulkId) w = Returns body w'"
  then have "clock w \<le> started + bulkMaxWaitMs" and "clock w \<le> clock w'"
    using clientQuery_clock by auto
  then show "((ev, client, bulkId, started, w'\<lparr> clock := clock w' + bulkPollIntervalMs \<rparr>),
        (ev, client, bulkId, started, w))
      \<in> measure (\<lambda>(ev, client, bulkId, started, w). started + bulkMaxWaitMs + 1 - clock w)"
    by (simp add: bulkPollIntervalMs_def)
qed

declare waitLoop.simps [simp del]

definition waitForBulkResult :: "env \<Rightarrow> session \<Rightarrow> string \<Rightarrow> string io" where
  "waitForBulkResult ev client bulkId = withClock (\<lambda>startedAt. waitLoop ev client bulkId startedAt)"

definition parseBulkResults :: "env \<Rightarrow> string \<Rightarrow> productAccumulator list io" where
  "parseBulkResults ev url =
     bindIO (fetchUrl ev url)
       (\<lambda>res. case res of
                FetchRejected \<Rightarrow> throwIO (Error ''fetch failed'')
              | Response r \<Rightarrow>
                  (if \<not> responseOk r \<or> responseLines r = None
                   then throwIO (Error ''Failed to download bulk results'')
                   else (case parseBulkLines (the (responseLines r)) of
                           Inl e \<Rightarrow> throwIO e
                         | Inr products \<Rightarrow> returnIO products)))"

text \<open>The body of the \<open>try\<close> in \<open>runCatalogJob\<close>: submit, wait, download and parse.\<close>

definition bulkExtract :: "env \<Rightarrow> session \<Rightarrow> bulkQuery \<Rightarrow> productAccumulator list io" where
  "bulkExtract ev client q =
     bindIO (startBulkOperation ev client q)
       (\<lambda>bulkId. bindIO (waitForBulkResult ev client bulkId)
          (\<lambda>resultUrl. parseBulkResults ev resultUrl))"

definition nodeAccumulator :: "productNode \<Rightarrow> productAccumulator" where
  "nodeAccumulator n =
     \<lparr> accId = nodeId n, accTitle = nodeTitle n, accHandle = nodeHandle n,
       accVendor = nodeVendor n, accProductType = nodeProductType n,
       accStatus = nodeProductStatus n, accFeaturedImageUrl = nodeFeaturedImageUrl n,
       accCreatedAt = nodeCreatedAt n, accUpdatedAt = nodeUpdatedAt n,
       accCollections = orElse (nodeCollections n) [],
       accImageUrls = map the (filter truthy (orElse (nodeImages n) [])),
       accVariants = orElse (nodeVariants n) [] \<rparr>"

text \<open>
  The \<open>while (hasNext)\<close> loop of \<open>fetchProductsPaginated\<close>. Nothing in the code bounds
  it (the shop may report a next page for ever), so the model counts its rounds down
  from a bound and reports when the bound is used up.
\<close>

fun paginate ::
  "nat \<Rightarrow> env \<Rightarrow> session \<Rightarrow> string \<Rightarrow> bool \<Rightarrow> string option \<Rightarrow> productAccumulator list
     \<Rightarrow> productAccumulator list io" where
  "paginate 0 ev client scopeQuery withCollections cursor products w = OutOfFuel w"
| "paginate (Suc fuel) ev client scopeQuery withCollections cursor products w =
     (case clientQuery ev client (ProductsPage scopeQuery withCollections cursor) w of
        Throws e w' \<Rightarrow> Throws e w'
      | OutOfFuel w' \<Rightarrow> OutOfFuel w'
      | Returns body w' \<Rightarrow>
          (case bodyProducts body of
             None \<Rightarrow> Returns products w'
           | Some payload \<Rightarrow>
               (let products' = products @ map (\<lambda>edge. nodeAccumulator (snd edge)) (pageEdges payload);
                    cursor' = (if pageEdges payload = [] then cursor
                               else Some (fst (last (pageEdges payload))))
                in if orElse (pageHasNextPage payload) False
                   then paginate fuel ev client scopeQuery withCollections cursor' products' w'
                   else Returns products' w')))"

definition fetchProductsPaginated ::
  "nat \<Rightarrow> env \<Rightarrow> session \<Rightarrow> exportSettings \<Rightarrow> productAccumulator list io" where
  "fetchProductsPaginated fuel ev client settings =
     paginate fuel ev client (buildProductQuery settings (orElse (includeDrafts settings) False))
       (shouldIncludeCollections settings) None []"

text \<open>
  The extraction step of \<open>runCatalogJob\<close>: the bulk path, and in its \<open>catch\<close> the
  fallback label and the paginated query.
\<close>

definition fallbackStep :: jobUpdate where
  "fallbackStep = noUpdate\<lparr> setCurrentStep := Some ''Collecting products (fallback)'' \<rparr>"

definition extractProducts ::
  "nat \<Rightarrow> env \<Rightarrow> session \<Rightarrow> string \<Rightarrow> exportSettings \<Rightarrow> productAccumulator list io" where
  "extractProducts fuel ev client ident settings =
     catchIO (bulkExtract ev client (buildBulkQuery settings))
       (\<lambda>error. bindIO (jobUpdateIO ev ident fallbackStep)
          (\<lambda>_. fetchProductsPaginated fuel ev client settings))"

subsection \<open>Image acquisition\<close>

definition extensionOf :: "string \<Rightarrow> string option" where
  "extensionOf contentType =
     (if includesStr contentType ''png'' then Some ''png''
      else if includesStr contentType ''jpeg'' then Some ''jpg'' else None)"

text \<open>
  One attempt of \<open>downloadWithRetry\<close>: the bytes and the extension when the fetch gives
  a response that is ok and whose body can be read; otherwise the attempt has failed (a
  response that is not ok goes to the next round of the loop, a rejected fetch or body is
  caught and does the same, and after the last round the function returns null).
\<close>

definition attemptOf :: "httpResult \<Rightarrow> (bytes \<times> string option) option" where
  "attemptOf res =
     (case res of
        FetchRejected \<Rightarrow> None
      | Response r \<Rightarrow>
          (if \<not> responseOk r then None
           else (case responseBytes r of
                   None \<Rightarrow> None
                 | Some bs \<Rightarrow> Some (bs, extensionOf (orElse (responseContentType r) [])))))"

text \<open>The row that \<open>createIssue\<close> creates.\<close>

definition createIssue ::
  "string \<Rightarrow> issueType \<Rightarrow> string \<Rightarrow> string option \<Rightarrow> (string \<times> string) option \<Rightarrow> jobIssue" where
  "createIssue ident ty pid phandle details =
     \<lparr> issueJobId = ident, issueSeverityOf = WARN, issueTypeOf = ty, issueProductId = pid,
       issueProductHandle = phandle, issueDetails = details \<rparr>"

text \<open>
  \<open>incrementCounts\<close>: the counts are read (\<open>findUnique\<close>), the delta is added to what was
  read, and the sum is written back (\<open>update\<close>).
\<close>

definition addCounts :: "counts option \<Rightarrow> counts \<Rightarrow> counts" where
  "addCounts c delta =
     \<lparr> productsTotal = Some (orElse (Option.bind c productsTotal) 0),
       productsProcessed =
         Some (orElse (Option.bind c productsProcessed) 0 + orElse (productsProcessed delta) 0),
       imagesDownloaded =
         Some (orElse (Option.bind c imagesDownloaded) 0 + orElse (imagesDownloaded delta) 0),
       imagesFailed =
         Some (orElse (Option.bind c imagesFailed) 0 + orElse (imagesFailed delta) 0) \<rparr>"

definition failedDelta :: counts where
  "failedDelta = \<lparr> productsTotal = None, productsProcessed = Some 1, imagesDownloaded = None,
                    imagesFailed = Some 1 \<rparr>"

definition downloadedDelta :: counts where
  "downloadedDelta = \<lparr> productsTotal = None, productsProcessed = Some 1,
                        imagesDownloaded = Some 1, imagesFailed = None \<rparr>"

text \<open>
  The five workers of \<open>downloadCovers\<close> share the queue, the records and the
  \<open>hasFailures\<close> flag. Each is an async function: it runs on its own until it has started
  an external call, and goes on when that call has settled, so the workers change over at
  every \<open>await\<close>. A worker is modelled by the call it is waiting for and what it needs to
  go on afterwards:
  \<^item> the fetch of an attempt of \<open>downloadWithRetry\<close>, for the record at an index, with the
    number of attempts left after this one;
  \<^item> the creation of an issue (by \<open>createIssue\<close>);
  \<^item> the write of a downloaded cover, with the record as it is changed after the write;
  \<^item> the read of \<open>incrementCounts\<close>, with the delta;
  \<^item> the write of \<open>incrementCounts\<close>, with the counts computed from what was read.
\<close>

datatype task =
  Fetching nat productRecord nat
| CreatingIssue jobIssue
| StoringCover nat productRecord string bytes
| ReadingCounts counts
| WritingCounts counts

record pool =
  poolQueue :: "(nat \<times> productRecord) list"
  poolRecords :: "productRecord list"
  poolFailures :: bool
  poolTasks :: "task list"

text \<open>
  The head of a worker's loop: with the queue empty the worker ends; otherwise it takes
  the first record off the queue and, for a record without a cover URL, sets
  \<open>hasFailures\<close> and starts creating the issue, and for a record with one starts the first
  of three attempts.
\<close>

definition nextTask :: "string \<Rightarrow> pool \<Rightarrow> task option \<times> pool" where
  "nextTask ident p =
     (case poolQueue p of
        [] \<Rightarrow> (None, p)
      | (i, r) # rest \<Rightarrow>
          (if \<not> truthy (coverUrl r)
           then (Some (CreatingIssue (createIssue ident MISSING_COVER (productId r) (handle r)
                                        (Some (''reason'', ''No cover image found'')))),
                 p\<lparr> poolQueue := rest, poolFailures := True \<rparr>)
           else (Some (Fetching i r (3 - 1)), p\<lparr> poolQueue := rest \<rparr>)))"

text \<open>The workers are started one after the other; each runs to its first call.\<close>

fun startWorkers :: "string \<Rightarrow> nat \<Rightarrow> pool \<Rightarrow> pool" where
  "startWorkers ident 0 p = p"
| "startWorkers ident (Suc n) p =
     (case nextTask ident p of
        (None, p') \<Rightarrow> startWorkers ident n p'
      | (Some t, p') \<Rightarrow> startWorkers ident n (p'\<lparr> poolTasks := poolTasks p' @ [t] \<rparr>))"

text \<open>The worker at position \<open>k\<close> comes back to the head of its loop.\<close>

definition loopHead :: "string \<Rightarrow> nat \<Rightarrow> pool \<Rightarrow> pool" where
  "loopHead ident k p =
     (case nextTask ident p of
        (None, p') \<Rightarrow> p'\<lparr> poolTasks := take k (poolTasks p') @ drop (Suc k) (poolTasks p') \<rparr>
      | (Some t, p') \<Rightarrow> p'\<lparr> poolTasks := (poolTasks p')[k := t] \<rparr>)"

text \<open>
  The call of the worker at position \<open>k\<close> settles, and the worker runs on to its next
  call. A call to the database or the file system that fails makes the worker throw.
\<close>

fun workerStep :: "env \<Rightarrow> string \<Rightarrow> nat \<Rightarrow> task \<Rightarrow> pool \<Rightarrow> pool io" where
  "workerStep ev ident k (Fetching i r retries) p =
     bindIO (fetchUrl ev (the (coverUrl r)))
       (\<lambda>res. returnIO
          (case attemptOf res of
             Some (bs, ext) \<Rightarrow>
               (let extension = orElse ext ''jpg'';
                    safeHandle = orElse (handle r) (productId r);
                    relativePath = ''jobs/'' @ ident @ ''/images/products/'' @ safeHandle
                                   @ ''/cover.'' @ extension;
                    r' = r\<lparr> localCoverPath := Some relativePath,
                             coverFileName := Some (''images/'' @ safeHandle @ ''.'' @ extension) \<rparr>
                in p\<lparr> poolTasks := (poolTasks p)[k := StoringCover i r' relativePath bs] \<rparr>)
           | None \<Rightarrow>
               (if retries = 0
                then p\<lparr> poolFailures := True,
                        poolTasks := (poolTasks p)
                          [k := CreatingIssue
                                  (createIssue ident IMAGE_DOWNLOAD_FAILED (productId r) (handle r)
                                     (Some (''url'', the (coverUrl r))))] \<rparr>
                else p\<lparr> poolTasks := (poolTasks p)[k := Fetching i r (retries - 1)] \<rparr>)))"
| "workerStep ev ident k (CreatingIssue issue) p =
     bindIO (jobIssueCreate ev issue)
       (\<lambda>_. returnIO (p\<lparr> poolTasks := (poolTasks p)[k := ReadingCounts failedDelta] \<rparr>))"
| "workerStep ev ident k (StoringCover i r' path bs) p =
     bindIO (storageWrite ev path bs)
       (\<lambda>_. returnIO (p\<lparr> poolRecords := (poolRecords p)[i := r'],
                          poolTasks := (poolTasks p)[k := ReadingCounts downloadedDelta] \<rparr>))"
| "workerStep ev ident k (ReadingCounts delta) p =
     bindIO (jobFindUnique ev ident)
       (\<lambda>found. returnIO
          (p\<lparr> poolTasks := (poolTasks p)
                 [k := WritingCounts (addCounts (Option.bind found countsJson) delta)] \<rparr>))"
| "workerStep ev ident k (WritingCounts c) p =
     bindIO (jobUpdateIO ev ident (noUpdate\<lparr> setCountsJson := Some c \<rparr>))
       (\<lambda>_. returnIO (loopHead ident k p))"

text \<open>The calls a worker has still to make for its record, and the work left to the pool.\<close>

fun taskCost :: "task \<Rightarrow> nat" where
  "taskCost (Fetching i r retries) = retries + 4"
| "taskCost (CreatingIssue issue) = 3"
| "taskCost (StoringCover i r' path bs) = 3"
| "taskCost (ReadingCounts delta) = 2"
| "taskCost (WritingCounts c) = 1"

definition poolWork :: "pool \<Rightarrow> nat" where
  "poolWork p = sum_list (map taskCost (poolTasks p)) + 7 * length (poolQueue p)"

lemma taskCost_update:
  "k < length ts \<Longrightarrow> taskCost t < taskCost (ts ! k)
     \<Longrightarrow> sum_list (map taskCost (ts[k := t])) < sum_list (map taskCost ts)"
proof (induction ts arbitrary: k)
  case Nil
  then show ?case by simp
next
  case (Cons a ts)
  then show ?case by (cases k) auto
qed

lemma taskCost_remove:
  "k < length ts
     \<Longrightarrow> sum_list (map taskCost (take k ts @ drop (Suc k) ts)) + taskCost (ts ! k)
         = sum_list (map taskCost ts)"
proof (induction ts arbitrary: k)
  case Nil
  then show ?case by simp
next
  case (Cons a ts)
  then show ?case by (cases k) (auto simp: add.assoc)
qed

lemma taskCost_replace:
  "k < length ts
     \<Longrightarrow> sum_list (map taskCost (ts[k := t])) + taskCost (ts ! k)
         = sum_list (map taskCost ts) + taskCost t"
proof (induction ts arbitrary: k)
  case Nil
  then show ?case by simp
next
  case (Cons a ts)
  then show ?case by (cases k) auto
qed

lemma loopHead_work:
  assumes "k < length (poolTasks p)" and "poolTasks p ! k = WritingCounts c"
  shows "poolWork (loopHead ident k p) < poolWork p"
proof (cases "poolQueue p")
  case Nil
  with taskCost_remove [OF assms(1)] assms(2) show ?thesis
    by (simp add: loopHead_def nextTask_def poolWork_def)
next
  case (Cons a rest)
  obtain i r where a: "a = (i, r)" by (cases a)
  show ?thesis
  proof (cases "truthy (coverUrl r)")
    case True
    with Cons a taskCost_replace [OF assms(1), of "Fetching i r 2"] assms(2) show ?thesis
      by (simp add: loopHead_def nextTask_def poolWork_def)
  next
    case False
    with Cons a taskCost_replace [OF assms(1),
        of "CreatingIssue (createIssue ident MISSING_COVER (productId r) (handle r)
              (Some (''reason'', ''No cover image found'')))"] assms(2)
    show ?thesis
      by (simp add: loopHead_def nextTask_def poolWork_def)
  qed
qed

lemma workerStep_work:
  assumes "k < length (poolTasks p)"
    and "workerStep ev ident k (poolTasks p ! k) p w = Returns p' w'"
  shows "poolWork p' < poolWork p"
proof (cases "poolTasks p ! k")
  case (Fetching i r retries)
  with assms show ?thesis
    by (auto simp: bindIO_def returnIO_def fetchUrl_def poolWork_def Let_def
        intro!: taskCost_update split: option.splits)
next
  case (CreatingIssue issue)
  with assms show ?thesis
    by (auto simp: bindIO_def returnIO_def jobIssueCreate_def guarded_def poolWork_def
        intro!: taskCost_update split: option.splits)
next
  case (StoringCover i r' path bs)
  with assms show ?thesis
    by (auto simp: bindIO_def returnIO_def storageWrite_def guarded_def poolWork_def
        intro!: taskCost_update split: option.splits)
next
  case (ReadingCounts delta)
  with assms show ?thesis
    by (auto simp: bindIO_def returnIO_def jobFindUnique_def guarded_def poolWork_def
        intro!: taskCost_update split: option.splits)
next
  case (WritingCounts c)
  with assms have "p' = loopHead ident k p"
    by (auto simp: bindIO_def returnIO_def jobUpdateIO_def guarded_def split: option.splits)
  with loopHead_work [OF assms(1) WritingCounts] show ?thesis by simp
qed

text \<open>
  The pool runs until every worker has ended (\<open>Promise.all\<close>), and gives the records and
  the flag; when a worker throws, \<open>downloadCovers\<close> throws at once. (What the other
  workers still do after that, to the counts, the issues and the covers, is left out.)
\<close>

function runWorkers :: "env \<Rightarrow> string \<Rightarrow> pool \<Rightarrow> (productRecord list \<times> bool) io" where
  "runWorkers ev ident p w =
     (if poolTasks p = [] then Returns (poolRecords p, poolFailures p) w
      else (case workerStep ev ident (schedule ev (tick w) mod length (poolTasks p))
                   (poolTasks p ! (schedule ev (tick w) mod length (poolTasks p))) p w of
              Throws e w' \<Rightarrow> Throws e w'
            | OutOfFuel w' \<Rightarrow> OutOfFuel w'
            | Returns p' w' \<Rightarrow> runWorkers ev ident p' w'))"
  by pat_completeness auto
termination
proof (relation "measure (\<lambda>(ev, ident, p, w). poolWork p)")
  show "wf (measure (\<lambda>(ev, ident, p, w). poolWork p))" by simp
next
  fix ev ident p w p' w'
  assume "poolTasks p \<noteq> []"
    and "workerStep ev ident (schedule ev (tick w) mod length (poolTasks p))
           (poolTasks p ! (schedule ev (tick w) mod length (poolTasks p))) p w = Returns p' w'"
  then have "poolWork p' < poolWork p"
    using workerStep_work [of "schedule ev (tick w) mod length (poolTasks p)" p ev ident w p' w']
    by simp
  then show "((ev, ident, p', w'), (ev, ident, p, w)) \<in> measure (\<lambda>(ev, ident, p, w). poolWork p)"
    by simp
qed

declare runWorkers.simps [simp del]

text \<open>
  \<open>downloadCovers\<close>: the counts are reset, the queue is a copy of the records, the five
  workers are started and awaited.
\<close>

definition downloadCovers :: "env \<Rightarrow> string \<Rightarrow> productRecord list \<Rightarrow> (productRecord list \<times> bool) io" where
  "downloadCovers ev ident records =
     bindIO (jobUpdateIO ev ident
               (noUpdate\<lparr> setCountsJson :=
                  Some \<lparr> productsTotal = Some (length records), productsProcessed = Some 0,
                         imagesDownloaded = Some 0, imagesFailed = Some 0 \<rparr> \<rparr>))
       (\<lambda>_. runWorkers ev ident
               (startWorkers ident 5
                  \<lparr> poolQueue = enumerate 0 records, poolRecords = records,
                    poolFailures = False, poolTasks = [] \<rparr>))"

subsection \<open>PDF and archive stages\<close>

text \<open>\<open>buildPdf\<close>: the pages are laid out reading the stored covers, saved and stored.\<close>

definition pdfLibOf :: "env \<Rightarrow> world \<Rightarrow> pdfLib" where
  "pdfLibOf ev w =
     \<lparr> readFile = (\<lambda>p. case files w p of None \<Rightarrow> Inl (Error ''ENOENT'') | Some bs \<Rightarrow> Inr bs),
       embedPng = canEmbedPng ev, embedJpg = canEmbedJpg ev, encodeText = fontError ev \<rparr>"

text \<open>
  \<open>pdf.save()\<close> adds an empty page of the default size to a document that has none.
\<close>

definition savedPages :: "page list \<Rightarrow> page list" where
  "savedPages pages =
     (if pages = [] then [\<lparr> pageWidth = 595, pageHeight = 842, pageOps = [] \<rparr>] else pages)"

definition buildPdf :: "env \<Rightarrow> string \<Rightarrow> productRecord list \<Rightarrow> exportSettings \<Rightarrow> (string \<times> nat) io" where
  "buildPdf ev ident records settings w =
     (case buildPdfPages (pdfLibOf ev w) records settings of
        Inl e \<Rightarrow> Throws e w
      | Inr pages \<Rightarrow>
          (let pdfBytes = pdfSave ev (savedPages pages);
               pdfPath = ''jobs/'' @ ident @ ''/catalog.pdf''
           in bindIO (storageWrite ev pdfPath pdfBytes)
                (\<lambda>_. returnIO (pdfPath, length pdfBytes)) w))"

text \<open>
  \<open>fitFontSize\<close>: the base size when the estimated width fits, otherwise the base scaled
  down, floored, and at least 10.
\<close>

definition fitFontSize :: "string \<Rightarrow> int \<Rightarrow> int \<Rightarrow> int" where
  "fitFontSize text baseFontSize maxWidth =
     (let len = (if length text = 0 then 1 else length text);
          estimatedWidth = of_int baseFontSize * real len * (6 / 10)
      in if estimatedWidth \<le> of_int maxWidth then baseFontSize
         else max 10 \<lfloor>of_int baseFontSize * (of_int maxWidth / estimatedWidth)\<rfloor>)"

text \<open>\<open>path.extname\<close>: from the last dot of the last path segment, unless it starts it.\<close>

definition extname :: "string \<Rightarrow> string" where
  "extname p =
     (let base = rev (takeWhile (\<lambda>c. c \<noteq> CHR ''/'') (rev p));
          ext = rev (takeWhile (\<lambda>c. c \<noteq> CHR ''.'') (rev base))
      in if CHR ''.'' \<notin> set base \<or> length ext + 1 = length base then [] else CHR ''.'' # ext)"

definition toLowerCase :: "string \<Rightarrow> string" where
  "toLowerCase s =
     map (\<lambda>c. let n = (of_char c :: nat) in if 65 \<le> n \<and> n \<le> 90 then char_of (n + 32) else c) s"

text \<open>
  \<open>applyPriceOverlay\<close>: the bytes as they are without a price text or an enabled overlay;
  otherwise the badge is laid over the image (\<open>sharp\<close>, which may throw).
\<close>

definition applyPriceOverlay ::
  "env \<Rightarrow> bytes \<Rightarrow> string option \<Rightarrow> string \<Rightarrow> priceOverlay option \<Rightarrow> error + bytes" where
  "applyPriceOverlay ev bs priceText extension overlay =
     (if \<not> truthy priceText \<or> Option.bind overlay overlayEnabled \<noteq> Some True then Inr bs
      else (case imageMetadata ev bs of
              Inl e \<Rightarrow> Inl e
            | Inr (mw, mh) \<Rightarrow>
                (let width = orElse mw 800;
                     height = orElse mh 800;
                     resolved = resolveOverlayStyle overlay width height;
                     baseFontSize = mathRound (max 12 (of_int (styleHeight resolved) * (5 / 10)));
                     fontSize = fitFontSize (the priceText) baseFontSize (styleWidth resolved)
                 in composite ev bs
                      \<lparr> svgWidth = width, svgHeight = height, svgStyle = resolved,
                        svgFontSize = fontSize, svgPriceText = the priceText \<rparr>
                      (toLowerCase extension = ''.png''))))"

text \<open>
  One round of the loop of \<open>buildImagesZip\<close>: the entry of a record with a stored cover,
  and no entry when there is no cover or when reading or compositing throws.
\<close>

definition zipEntry :: "env \<Rightarrow> exportSettings \<Rightarrow> productRecord \<Rightarrow> (string \<times> bytes) list io" where
  "zipEntry ev settings r =
     (if \<not> truthy (localCoverPath r) \<or> \<not> truthy (coverFileName r) then returnIO []
      else catchIO
             (bindIO (storageRead ev (the (localCoverPath r)))
                (\<lambda>sourceBytes.
                   case applyPriceOverlay ev sourceBytes
                          (formatPrice (priceOf r)
                             (case Option.bind (priceOverlayOf settings) overlayCurrencyPrefix of
                                Some p \<Rightarrow> Some p
                              | None \<Rightarrow> currencyPrefix settings))
                          (extname (the (localCoverPath r)))
                          (priceOverlayOf settings) of
                     Inl e \<Rightarrow> throwIO e
                   | Inr outputBytes \<Rightarrow> returnIO [(the (coverFileName r), outputBytes)]))
             (\<lambda>error. returnIO []))"

fun zipLoop :: "env \<Rightarrow> exportSettings \<Rightarrow> productRecord list \<Rightarrow> (string \<times> bytes) list io" where
  "zipLoop ev settings [] w = Returns [] w"
| "zipLoop ev settings (r # rs) w =
     (case zipEntry ev settings r w of
        Throws e w' \<Rightarrow> Throws e w'
      | OutOfFuel w' \<Rightarrow> OutOfFuel w'
      | Returns entry w' \<Rightarrow>
          (case zipLoop ev settings rs w' of
             Throws e w'' \<Rightarrow> Throws e w''
           | OutOfFuel w'' \<Rightarrow> OutOfFuel w''
           | Returns entries w'' \<Rightarrow> Returns (entry @ entries) w''))"

text \<open>
  \<open>buildImagesZip\<close>: the directory is made, the covers are appended, then the manifest
  when it is in the store, then the README; the archive is written and its size read.
\<close>

definition buildImagesZip ::
  "env \<Rightarrow> string \<Rightarrow> productRecord list \<Rightarrow> string option \<Rightarrow> exportSettings \<Rightarrow> (string \<times> nat) io" where
  "buildImagesZip ev ident records manifestKey settings =
     (let zipRelative = ''jobs/'' @ ident @ ''/images.zip''
      in bindIO (guarded ev (returnIO ()))
           (\<lambda>_. bindIO (zipLoop ev settings records)
              (\<lambda>covers w.
                 (let manifestEntry =
                        (if truthy manifestKey
                         then (case files w (the manifestKey) of
                                 None \<Rightarrow> []
                               | Some bs \<Rightarrow> [(''manifest.json'', bs)])
                         else []);
                      archive = zipBytes ev
                        (covers @ manifestEntry
                         @ [(''README.txt'', map of_char ''CatalogForge - cover images only.'' @ [10::nat])])
                  in bindIO (storageWrite ev zipRelative archive)
                       (\<lambda>_. returnIO (zipRelative, length archive)) w))))"

subsection \<open>The orchestrator\<close>

definition emptySettings :: exportSettings where
  "emptySettings =
     \<lparr> scopeTypeOf = None, includeDrafts = None, pricingModeOf = None, currencyPrefix = None,
       layoutTypeOf = None, gridColumnsOf = None, groupingOf = None, sortOrderOf = None,
       pageSizeOf = None, watermarkEnabled = None, watermarkText = None,
       watermarkOpacityOf = None, priceOverlayOf = None, productIds = None,
       collectionIds = None, filtersOf = None \<rparr>"

text \<open>\<open>addDays\<close>, in milliseconds (days of 24 hours).\<close>

definition addDays :: "nat \<Rightarrow> nat \<Rightarrow> nat" where
  "addDays date days = date + days * 86400000"

text \<open>The five progress checkpoints of a run.\<close>

definition startStep :: "nat \<Rightarrow> jobUpdate" where
  "startStep now =
     noUpdate\<lparr> setStatus := Some RUNNING, setProgressPercent := Some 5,
               setCurrentStep := Some ''Collecting products'', setStartedAt := Some now,
               setErrorSummary := Some None \<rparr>"

definition imagesStep :: "nat \<Rightarrow> jobUpdate" where
  "imagesStep n =
     noUpdate\<lparr> setCountsJson := Some \<lparr> productsTotal = Some n, productsProcessed = Some 0,
                                       imagesDownloaded = None, imagesFailed = None \<rparr>,
               setProgressPercent := Some 35,
               setCurrentStep := Some ''Downloading cover images'' \<rparr>"

definition pdfStep :: jobUpdate where
  "pdfStep = noUpdate\<lparr> setProgressPercent := Some 70, setCurrentStep := Some ''Building PDF'' \<rparr>"

definition zipStep :: jobUpdate where
  "zipStep = noUpdate\<lparr> setProgressPercent := Some 85, setCurrentStep := Some ''Packaging ZIP'' \<rparr>"

definition finalStep :: "bool \<Rightarrow> nat \<Rightarrow> jobUpdate" where
  "finalStep hasFailures now =
     noUpdate\<lparr> setProgressPercent := Some 100, setCurrentStep := Some ''Completed'',
               setStatus := Some (if hasFailures then PARTIAL else COMPLETED),
               setFinishedAt := Some now \<rparr>"

definition jobFileOf :: "string \<Rightarrow> fileType \<Rightarrow> string \<Rightarrow> string \<Rightarrow> nat \<Rightarrow> nat \<Rightarrow> jobFile" where
  "jobFileOf ident ty key contentType sizeBytes now =
     \<lparr> fileJobId = ident, fileTypeOf = ty, fileStorageKey = key, fileContentType = contentType,
       fileSizeBytes = sizeBytes, fileExpiresAt = addDays now retentionDays \<rparr>"

text \<open>
  \<open>runCatalogJob\<close> from the point where the products are known: records, images,
  manifest, PDF, archive, final status. The model returns the \<open>hasFailures\<close> flag of the
  image stage, which the code keeps in \<open>imageResult\<close>.
\<close>

definition finishJob ::
  "env \<Rightarrow> string \<Rightarrow> string \<Rightarrow> exportSettings \<Rightarrow> productAccumulator list \<Rightarrow> bool io" where
  "finishJob ev ident shop settings products =
     (let records = map (\<lambda>product. buildProductRecord (jsNumberOf ev) (jsStringOf ev) product settings)
                      products;
          sortedRecords = sortRecords (localeCompareOf ev) records settings
      in bindIO (jobUpdateIO ev ident (imagesStep (length sortedRecords)))
      (\<lambda>_. bindIO (downloadCovers ev ident sortedRecords)
      (\<lambda>imageResult. withClock
      (\<lambda>generatedAt.
         (let manifestBuffer = jsonBytes ev
                \<lparr> manifestJobId = ident, manifestShopDomain = shop,
                  manifestGeneratedAt = generatedAt, manifestSettings = settings,
                  manifestProducts = fst imageResult \<rparr>
          in bindIO (storageWrite ev (''jobs/'' @ ident @ ''/manifest.json'') manifestBuffer)
      (\<lambda>storedKey. withClock
      (\<lambda>now. bindIO (jobFileCreate ev
                        (jobFileOf ident MANIFEST storedKey ''application/json''
                           (length manifestBuffer) now))
      (\<lambda>manifestFile. bindIO (jobUpdateIO ev ident pdfStep)
      (\<lambda>_. bindIO (buildPdf ev ident (fst imageResult) settings)
      (\<lambda>pdfPath. withClock
      (\<lambda>now. bindIO (jobFileCreate ev
                        (jobFileOf ident PDF (fst pdfPath) ''application/pdf'' (snd pdfPath) now))
      (\<lambda>_. bindIO (jobUpdateIO ev ident zipStep)
      (\<lambda>_. bindIO (buildImagesZip ev ident (fst imageResult)
                      (Some (fileStorageKey manifestFile)) settings)
      (\<lambda>zipPath. withClock
      (\<lambda>now. bindIO (jobFileCreate ev
                        (jobFileOf ident IMAGES_ZIP (fst zipPath) ''application/zip'' (snd zipPath) now))
      (\<lambda>_. withClock
      (\<lambda>now. bindIO (jobUpdateIO ev ident (finalStep (snd imageResult) now))
      (\<lambda>_. returnIO (snd imageResult)))))))))))))))))))"

text \<open>
  \<open>runCatalogJob\<close>: the job and its offline session are looked up (a missing one
  throws), the job is marked RUNNING, the products are extracted, and the run goes on as
  above.
\<close>

definition runCatalogJob :: "nat \<Rightarrow> env \<Rightarrow> string \<Rightarrow> bool io" where
  "runCatalogJob fuel ev ident =
     bindIO (jobFindUnique ev ident)
       (\<lambda>found. case found of
          None \<Rightarrow> throwIO (Error ''Job not found'')
        | Some j \<Rightarrow>
            (let shop = jobShopDomain j;
                 settings = orElse (settingsJson j) emptySettings
             in bindIO (guarded ev (returnIO (loadSession ev (''offline_'' @ shop))))
                  (\<lambda>loaded. case loaded of
                     None \<Rightarrow> throwIO (Error (''Missing offline session for '' @ shop))
                   | Some client \<Rightarrow>
                       withClock
                         (\<lambda>now. bindIO (jobUpdateIO ev ident (startStep now))
                            (\<lambda>_. bindIO (extractProducts fuel ev client ident settings)
                               (\<lambda>products. finishJob ev ident shop settings products))))))"

text \<open>
  The caller (\<open>worker/src/index.ts\<close>): the handler of the queue's \<open>failed\<close> event marks
  the job FAILED with the error's message.
\<close>

definition failedStep :: "string \<Rightarrow> nat \<Rightarrow> jobUpdate" where
  "failedStep message now =
     noUpdate\<lparr> setStatus := Some FAILED, setErrorSummary := Some (Some message),
               setFinishedAt := Some now \<rparr>"

definition workerRun :: "nat \<Rightarrow> env \<Rightarrow> string \<Rightarrow> bool io" where
  "workerRun fuel ev ident =
     catchIO (runCatalogJob fuel ev ident)
       (\<lambda>err. case err of
          Error message \<Rightarrow>
            withClock (\<lambda>now. bindIO (jobUpdateIO ev ident (failedStep message now))
                               (\<lambda>_. throwIO err)))"

text \<open>What the job store has been told about progress and status, in order.\<close>

definition marksOf :: "jobUpdate \<Rightarrow> (nat option \<times> string option \<times> jobStatus option) list" where
  "marksOf u =
     (if setProgressPercent u = None \<and> setStatus u = None then []
      else [(setProgressPercent u, setCurrentStep u, setStatus u)])"

definition marks :: "world \<Rightarrow> (nat option \<times> string option \<times> jobStatus option) list" where
  "marks w = concat (map (\<lambda>e. marksOf (snd e)) (jobWrites w))"

definition checkpoints :: "bool \<Rightarrow> (nat option \<times> string option \<times> jobStatus option) list" where
  "checkpoints hasFailures =
     [(Some 5, Some ''Collecting products'', Some RUNNING),
      (Some 35, Some ''Downloading cover images'', None),
      (Some 70, Some ''Building PDF'', None),
      (Some 85, Some ''Packaging ZIP'', None),
      (Some 100, Some ''Completed'', Some (if hasFailures then PARTIAL else COMPLETED))]"

subsection \<open>Assertions about runs\<close>

text \<open>
  From a world that satisfies \<open>P\<close>, the computation ends in a world that satisfies
  \<open>Q\<close> with the value it returns, or \<open>E\<close> when it throws or is cut off.
\<close>

definition hoare :: "(world \<Rightarrow> bool) \<Rightarrow> 'a io \<Rightarrow> ('a \<Rightarrow> world \<Rightarrow> bool) \<Rightarrow> (world \<Rightarrow> bool) \<Rightarrow> bool" where
  "hoare P m Q E =
     (\<forall>w. P w \<longrightarrow>
        (case m w of Returns a w' \<Rightarrow> Q a w' | Throws e w' \<Rightarrow> E w' | OutOfFuel w' \<Rightarrow> E w'))"

text \<open>A computation that tells the job store nothing about progress or status.\<close>

definition quiet :: "'a io \<Rightarrow> bool" where
  "quiet m = (\<forall>w. marks (worldOf (m w)) = marks w)"

text \<open>
  Where a run stands: the marks before it (\<open>base\<close>) followed by the first \<open>k\<close>
  checkpoints; stopped short of the last checkpoint; through all five.
\<close>

type_synonym mark = "nat option \<times> string option \<times> jobStatus option"

definition reached :: "mark list \<Rightarrow> nat \<Rightarrow> world \<Rightarrow> bool" where
  "reached base k w = (marks w = base @ take k (checkpoints False))"

definition stopped :: "mark list \<Rightarrow> world \<Rightarrow> bool" where
  "stopped base w = (\<exists>k. k < 5 \<and> reached base k w)"

definition completed :: "mark list \<Rightarrow> bool \<Rightarrow> world \<Rightarrow> bool" where
  "completed base hasFailures w = (marks w = base @ checkpoints hasFailures)"

text \<open>The progress percents and the statuses written to the job store, in order.\<close>

definition progressOf :: "mark \<Rightarrow> nat list" where
  "progressOf m = (case fst m of None \<Rightarrow> [] | Some p \<Rightarrow> [p])"

definition statusOf :: "mark \<Rightarrow> jobStatus list" where
  "statusOf m = (case snd (snd m) of None \<Rightarrow> [] | Some s \<Rightarrow> [s])"

definition progressWrites :: "world \<Rightarrow> nat list" where
  "progressWrites w =
     concat (map (\<lambda>e. case setProgressPercent (snd e) of None \<Rightarrow> [] | Some p \<Rightarrow> [p]) (jobWrites w))"

definition statusWrites :: "world \<Rightarrow> jobStatus list" where
  "statusWrites w =
     concat (map (\<lambda>e. case setStatus (snd e) of None \<Rightarrow> [] | Some s \<Rightarrow> [s]) (jobWrites w))"

text \<open>A count of the job, read as \<open>incrementCounts\<close> reads it (0 when absent).\<close>

definition countOf :: "(counts \<Rightarrow> nat option) \<Rightarrow> world \<Rightarrow> string \<Rightarrow> nat" where
  "countOf field w ident = orElse (Option.bind (Option.bind (jobs w ident) countsJson) field) 0"

subsection \<open>Sample inputs\<close>

definition sampleOverlay :: priceOverlay where
  "sampleOverlay =
     \<lparr> overlayEnabled = Some True,
       overlayRectOf = Some \<lparr> rectX = Num (- 1 / 2), rectY = Num 2,
                              rectWidth = Num (3 / 2), rectHeight = Num (3 / 10) \<rparr>,
       backgroundColor = None, backgroundOpacity = None, textColor = None,
       overlayCurrencyPrefix = None \<rparr>"

text \<open>
  A stand-in for \<open>Number\<close> and \<open>String\<close> on the few strings the samples use
  (\<open>Number("")\<close> is 0 in JavaScript).
\<close>

definition sampleNumber :: "string \<Rightarrow> number" where
  "sampleNumber s =
     (if s = ''10'' then Num 10 else if s = ''25'' then Num 25
      else if s = ''19.99'' then Num (1999 / 100) else if s = [] then Num 0 else NaN)"

fun sampleString :: "number \<Rightarrow> string" where
  "sampleString NaN = ''NaN''"
| "sampleString PosInf = ''Infinity''"
| "sampleString NegInf = ''-Infinity''"
| "sampleString (Num r) =
     (if r = 10 then ''10'' else if r = 25 then ''25''
      else if r = 1999 / 100 then ''19.99'' else if r = 0 then ''0'' else ''?'')"

definition sampleSettings :: exportSettings where
  "sampleSettings =
     \<lparr> scopeTypeOf = Some ALL_PRODUCTS, includeDrafts = None,
       pricingModeOf = Some MIN_MAX_RANGE, currencyPrefix = None,
       layoutTypeOf = Some GRID, gridColumnsOf = Some Columns3, groupingOf = Some VENDOR,
       sortOrderOf = None, pageSizeOf = None, watermarkEnabled = None, watermarkText = None,
       watermarkOpacityOf = None, priceOverlayOf = None, productIds = None,
       collectionIds = None, filtersOf = None \<rparr>"

definition sampleVariant :: "string \<Rightarrow> string option \<Rightarrow> productVariant" where
  "sampleVariant t p = \<lparr> variantId = Some (''gid://shopify/ProductVariant/'' @ t),
                          variantTitle = t, variantPrice = p \<rparr>"

definition sampleProduct :: "productVariant list \<Rightarrow> productAccumulator" where
  "sampleProduct vs =
     \<lparr> accId = ''gid://shopify/Product/1'', accTitle = Some ''Mug'', accHandle = Some ''mug'',
       accVendor = Some ''Acme'', accProductType = None, accStatus = Some ''ACTIVE'',
       accFeaturedImageUrl = None, accCreatedAt = None, accUpdatedAt = None,
       accCollections = [], accImageUrls = [], accVariants = vs \<rparr>"

text \<open>
  The reading of MIN_MAX_RANGE under which every non-null variant price takes part (the
  code lets the non-empty ones take part).
\<close>

definition nonNullPrices :: "productVariant list \<Rightarrow> string list" where
  "nonNullPrices variants = map the (filter (\<lambda>p. p \<noteq> None) (map variantPrice variants))"

definition minMaxOfNonNull ::
  "(string \<Rightarrow> number) \<Rightarrow> (number \<Rightarrow> string) \<Rightarrow> productVariant list \<Rightarrow> price" where
  "minMaxOfNonNull jsNumber jsString variants =
     (let prices = nonNullPrices variants
      in if prices = [] then PriceNull
         else PriceRange (jsString (mathMin (map jsNumber prices)))
                (jsString (mathMax (map jsNumber prices))))"

text \<open>
  A font that, like the standard Helvetica, cannot encode the control character U+0001.
\<close>

definition sampleFont :: "string \<Rightarrow> error option" where
  "sampleFont t =
     (if CHR 0x01 \<in> set t then Some (Error ''WinAnsi cannot encode U+0001'')
      else None)"

definition sampleLib :: pdfLib where
  "sampleLib =
     \<lparr> readFile = (\<lambda>p. if p = ''jobs/j1/images/products/mug/cover.png'' then Inr [137, 80, 78, 71]
                       else Inl (Error ''ENOENT'')),
       embedPng = (\<lambda>bs. True), embedJpg = (\<lambda>bs. False), encodeText = sampleFont \<rparr>"

definition sampleRecord :: "string option \<Rightarrow> productRecord" where
  "sampleRecord path =
     \<lparr> productId = ''gid://shopify/Product/1'', title = Some ''Mug'', handle = Some ''mug'',
       vendor = Some ''Acme'', productType = None, status = Some ''ACTIVE'',
       coverUrl = Some ''https://cdn.example/mug.png'', createdAt = None, updatedAt = None,
       collections = [], localCoverPath = path, coverFileName = None,
       priceOf = PriceRange ''10'' ''25'' \<rparr>"

text \<open>Lines of a bulk result: a product, two of its variants, one more image.\<close>

definition sampleLine ::
  "string option \<Rightarrow> string option \<Rightarrow> string option \<Rightarrow> jsonPrice \<Rightarrow> string option \<Rightarrow> bulkRecord" where
  "sampleLine parent ident t p u =
     \<lparr> lineParentId = parent, lineId = ident, lineTitle = t, lineHandle = None,
       lineVendor = None, lineProductType = None, lineStatus = None, lineCreatedAt = None,
       lineUpdatedAt = None, lineFeaturedImageUrl = None, lineFirstImageUrl = None,
       linePrice = p, lineUrl = u \<rparr>"

definition productLine :: bulkLine where
  "productLine = Json (sampleLine None (Some ''gid://shopify/Product/1'') (Some ''Mug'')
                         PriceUndefined None)"

definition smallLine :: bulkLine where
  "smallLine = Json (sampleLine (Some ''gid://shopify/Product/1'')
                       (Some ''gid://shopify/ProductVariant/11'') (Some ''Small'')
                       (PriceString ''5.00'') None)"

definition largeLine :: bulkLine where
  "largeLine = Json (sampleLine (Some ''gid://shopify/Product/1'')
                       (Some ''gid://shopify/ProductVariant/12'') (Some ''Large'')
                       (PriceString ''9.00'') None)"

definition imageLine :: bulkLine where
  "imageLine = Json (sampleLine (Some ''gid://shopify/Product/1'') None None PriceUndefined
                       (Some ''https://cdn.example/mug-2.png''))"

definition mugWith :: "productVariant list \<Rightarrow> string list \<Rightarrow> productAccumulator" where
  "mugWith vs imgs =
     \<lparr> accId = ''gid://shopify/Product/1'', accTitle = Some ''Mug'', accHandle = None,
       accVendor = None, accProductType = None, accStatus = None, accFeaturedImageUrl = None,
       accCreatedAt = None, accUpdatedAt = None, accCollections = [], accImageUrls = imgs,
       accVariants = vs \<rparr>"

definition smallVariant :: productVariant where
  "smallVariant = \<lparr> variantId = Some ''gid://shopify/ProductVariant/11'',
                     variantTitle = ''Small'', variantPrice = Some ''5.00'' \<rparr>"

definition largeVariant :: productVariant where
  "largeVariant = \<lparr> variantId = Some ''gid://shopify/ProductVariant/12'',
                     variantTitle = ''Large'', variantPrice = Some ''9.00'' \<rparr>"

text \<open>
  A small shop: the job \<open>j1\<close> with default settings, a bulk operation that the shop
  reports as FAILED, one product on the single page of the fallback query, and a cover
  URL whose answers are given by \<open>h\<close> (by the number of the external call).
\<close>

definition sampleJob :: job where
  "sampleJob =
     \<lparr> jobShopDomain = ''shop.example'', settingsJson = None, jobStatusOf = QUEUED,
       progressPercent = 0, currentStep = None, countsJson = None, errorSummary = None,
       startedAt = None, finishedAt = None \<rparr>"

definition sampleNode :: productNode where
  "sampleNode =
     \<lparr> nodeId = ''gid://shopify/Product/1'', nodeTitle = Some ''Mug'', nodeHandle = Some ''mug'',
       nodeVendor = Some ''Acme'', nodeProductType = None, nodeProductStatus = Some ''ACTIVE'',
       nodeCreatedAt = None, nodeUpdatedAt = None, nodeFeaturedImageUrl = None,
       nodeImages = Some [Some ''https://cdn.example/mug.png''],
       nodeVariants = Some [smallVariant, largeVariant], nodeCollections = None \<rparr>"

definition sampleShop :: "gqlRequest \<Rightarrow> error + gqlBody" where
  "sampleShop req =
     (case req of
        RunBulkOperation q \<Rightarrow>
          Inr \<lparr> bodyRunQuery = Some \<lparr> bulkOperationId = Some ''gid://shopify/BulkOperation/1'',
                                       userErrors = [] \<rparr>,
                bodyNode = None, bodyProducts = None \<rparr>
      | PollBulkOperation i \<Rightarrow>
          Inr \<lparr> bodyRunQuery = None,
                bodyNode = Some \<lparr> nodeStatus = ''FAILED'', nodeUrl = None \<rparr>,
                bodyProducts = None \<rparr>
      | ProductsPage scopeQuery withCollections cursor \<Rightarrow>
          Inr \<lparr> bodyRunQuery = None, bodyNode = None,
                bodyProducts = Some \<lparr> pageEdges = [(''c1'', sampleNode)],
                                      pageHasNextPage = Some False \<rparr> \<rparr>)"

definition pngResponse :: httpResult where
  "pngResponse =
     Response \<lparr> responseOk = True, responseContentType = Some ''image/png'',
                responseLines = None, responseBytes = Some [137, 80, 78, 71] \<rparr>"

definition sampleSession :: session where
  "sampleSession = \<lparr> sessionShop = ''shop.example'', sessionAccessToken = ''t'' \<rparr>"

definition sampleEnv :: "(nat \<Rightarrow> httpResult) \<Rightarrow> env" where
  "sampleEnv h =
     \<lparr> loadSession = (\<lambda>s. if s = ''offline_shop.example'' then Some sampleSession else None),
       failure = (\<lambda>n. None),
       graphql = (\<lambda>n client req. sampleShop req),
       http = (\<lambda>n url. h n),
       latency = (\<lambda>n. 10),
       jsNumberOf = sampleNumber,
       jsStringOf = sampleString,
       localeCompareOf = (\<lambda>a b. 0),
       canEmbedPng = (\<lambda>bs. True),
       canEmbedJpg = (\<lambda>bs. False),
       fontError = sampleFont,
       schedule = (\<lambda>n. 0),
       pdfSave = (\<lambda>pages. replicate (length pages) 37),
       jsonBytes = (\<lambda>m. [123, 125]),
       imageMetadata = (\<lambda>bs. Inr (Some 800, Some 600)),
       composite = (\<lambda>bs svg png. Inr bs),
       zipBytes = (\<lambda>entries. concat (map snd entries)) \<rparr>"

definition sampleWorld :: world where
  "sampleWorld =
     \<lparr> jobs = (\<lambda>k. if k = ''j1'' then Some sampleJob else None), jobWrites = [], jobIssues = [],
       jobFiles = [], files = (\<lambda>p. None), requests = [], clock = 1000, tick = 0 \<rparr>"

text \<open>
  Two records with covers, a CDN that rejects the fetches made as the listed calls, and
  an environment in which the pending calls of the workers settle in turn (the second
  worker's, then the first worker's, and so on).
\<close>

definition cupRecord :: productRecord where
  "cupRecord =
     \<lparr> productId = ''gid://shopify/Product/2'', title = Some ''Cup'', handle = Some ''cup'',
       vendor = Some ''Acme'', productType = None, status = Some ''ACTIVE'',
       coverUrl = Some ''https://cdn.example/cup.png'', createdAt = None, updatedAt = None,
       collections = [], localCoverPath = None, coverFileName = None,
       priceOf = PriceScalar ''7'' \<rparr>"

definition flakyCdn :: "nat list \<Rightarrow> nat \<Rightarrow> httpResult" where
  "flakyCdn rejected n = (if n \<in> set rejected then FetchRejected else pngResponse)"

definition inTurn :: "env \<Rightarrow> env" where
  "inTurn ev = ev\<lparr> schedule := (\<lambda>n. n) \<rparr>"


section \<open>Verified properties\<close>

subsection \<open>Price formatting\<close>

text \<open>
  C5. \<open>formatPrice\<close> is a function of its two arguments alone. With the prefix \<open>"$"\<close>
  (given, or defaulted) the scalar price \<open>"19.99"\<close> formats to \<open>"$19.99"\<close>, the range
  \<open>{min: "10", max: "25"}\<close> to \<open>"$10 - $25"\<close>, a variant table whose first variant costs
  \<open>"5.00"\<close> to \<open>"$5.00"\<close> whatever the later variants are, and the null price to null.
\<close>

theorem formatPrice_examples:
  "formatPrice (PriceScalar ''19.99'') (Some ''$'') = Some ''$19.99''
   \<and> formatPrice (PriceRange ''10'' ''25'') (Some ''$'') = Some ''$10 - $25''
   \<and> (\<forall>t rest. formatPrice (PriceVariants (\<lparr> rowTitle = t, rowPrice = Some ''5.00'' \<rparr> # rest)) (Some ''$'')
          = Some ''$5.00'')
   \<and> (\<forall>cp. formatPrice PriceNull cp = None)
   \<and> formatPrice (PriceScalar ''19.99'') None = Some ''$19.99''
   \<and> formatPrice (PriceRange ''10'' ''25'') None = Some ''$10 - $25''
   \<and> (\<forall>t rest. formatPrice (PriceVariants (\<lparr> rowTitle = t, rowPrice = Some ''5.00'' \<rparr> # rest)) None
          = Some ''$5.00'')"
  by simp

theorem formatPrice_examples_witness:
  "formatPrice (PriceVariants [\<lparr> rowTitle = ''Small'', rowPrice = Some ''5.00'' \<rparr>,
                               \<lparr> rowTitle = ''Large'', rowPrice = Some ''9.00'' \<rparr>]) (Some ''$'')
     = Some ''$5.00''
   \<and> formatPrice (PriceVariants [\<lparr> rowTitle = ''Small'', rowPrice = Some ''5.00'' \<rparr>,
                               \<lparr> rowTitle = ''Large'', rowPrice = None \<rparr>]) None
     = Some ''$5.00''"
  using formatPrice_examples by blast

subsection \<open>Overlay geometry\<close>

lemma clamp01_range: "0 \<le> clamp01 v \<and> clamp01 v \<le> 1"
  by (cases v) auto

lemma mathRound_mono: "a \<le> b \<Longrightarrow> mathRound a \<le> mathRound b"
  unfolding mathRound_def by (simp add: floor_mono)

lemma mathRound_of_int: "mathRound (of_int n) = n"
  unfolding mathRound_def by linarith

lemma mathRound_nonneg: "0 \<le> a \<Longrightarrow> 0 \<le> mathRound a"
  using mathRound_mono [of 0 a] mathRound_of_int [of 0] by simp

text \<open>A side of the image scaled by a ratio in [0, 1] rounds to a length within the side.\<close>

lemma scaled_extent:
  assumes "0 < n" "0 \<le> r" "r \<le> 1"
  shows "0 \<le> mathRound (of_int n * r) \<and> mathRound (of_int n * r) \<le> n"
proof -
  have "0 \<le> of_int n * r" using assms by simp
  moreover have "of_int n * r \<le> of_int n" using assms by (simp add: mult_left_le)
  ultimately show ?thesis
    using mathRound_nonneg mathRound_mono [of "of_int n * r" "of_int n"] mathRound_of_int [of n]
    by simp
qed

text \<open>The origin is cut off at \<open>n - w\<close>, an integer, so rounding cannot push it past.\<close>

lemma clamped_origin:
  assumes "0 \<le> w" "w \<le> n"
  shows "0 \<le> mathRound (min (max 0 p) (of_int n - of_int w))
       \<and> mathRound (min (max 0 p) (of_int n - of_int w)) + w \<le> n"
proof -
  have "(0::real) \<le> min (max 0 p) (of_int n - of_int w)" using assms by simp
  then have lo: "0 \<le> mathRound (min (max 0 p) (of_int n - of_int w))"
    by (rule mathRound_nonneg)
  have "min (max 0 p) (of_int n - of_int w) \<le> of_int (n - w)" by simp
  then have "mathRound (min (max 0 p) (of_int n - of_int w)) \<le> n - w"
    using mathRound_mono mathRound_of_int [of "n - w"] by metis
  with lo show ?thesis by simp
qed

text \<open>
  C4. For an image of positive integer width and height and any overlay setting (absent,
  without a rectangle, or with a rectangle of arbitrary ratios: negative, above 1, NaN or
  infinite), the rectangle \<open>resolveOverlayStyle\<close> returns lies within the image:
  \<open>x \<ge> 0\<close>, \<open>y \<ge> 0\<close>, \<open>x + width \<le> imageWidth\<close>, \<open>y + height \<le> imageHeight\<close>
  (and its width and height are not negative).
\<close>

theorem resolveOverlayStyle_within_bounds:
  assumes "0 < imageWidth" and "0 < imageHeight"
  shows "0 \<le> styleX (resolveOverlayStyle overlay imageWidth imageHeight)
       \<and> 0 \<le> styleY (resolveOverlayStyle overlay imageWidth imageHeight)
       \<and> 0 \<le> styleWidth (resolveOverlayStyle overlay imageWidth imageHeight)
       \<and> 0 \<le> styleHeight (resolveOverlayStyle overlay imageWidth imageHeight)
       \<and> styleX (resolveOverlayStyle overlay imageWidth imageHeight)
           + styleWidth (resolveOverlayStyle overlay imageWidth imageHeight) \<le> imageWidth
       \<and> styleY (resolveOverlayStyle overlay imageWidth imageHeight)
           + styleHeight (resolveOverlayStyle overlay imageWidth imageHeight) \<le> imageHeight"
proof -
  let ?wr = "clamp01 (rectField overlay rectWidth (88 / 100))"
  let ?hr = "clamp01 (rectField overlay rectHeight (2 / 10))"
  have w: "0 \<le> mathRound (of_int imageWidth * ?wr) \<and> mathRound (of_int imageWidth * ?wr) \<le> imageWidth"
    using scaled_extent [OF assms(1)] clamp01_range by blast
  have h: "0 \<le> mathRound (of_int imageHeight * ?hr) \<and> mathRound (of_int imageHeight * ?hr) \<le> imageHeight"
    using scaled_extent [OF assms(2)] clamp01_range by blast
  show ?thesis
    unfolding resolveOverlayStyle_def Let_def
    using w h clamped_origin [of "mathRound (of_int imageWidth * ?wr)" imageWidth]
      clamped_origin [of "mathRound (of_int imageHeight * ?hr)" imageHeight]
    by simp
qed

text \<open>
  An 800 by 600 image and the rectangle \<open>x = -0.5, y = 2, width = 1.5, height = 0.3\<close>:
  the overlay becomes the 800 by 180 strip at the bottom of the image.
\<close>

lemma sampleOverlay_resolved:
  "resolveOverlayStyle (Some sampleOverlay) 800 600 =
     \<lparr> styleX = 0, styleY = 420, styleWidth = 800, styleHeight = 180,
       styleBackgroundColor = ''#000000'', styleBackgroundOpacity = 55 / 100,
       styleTextColor = ''#ffffff'' \<rparr>"
  by (simp add: resolveOverlayStyle_def sampleOverlay_def rectField_def overlayField_def
      mathRound_def)

theorem resolveOverlayStyle_within_bounds_witness:
  "(0::int) < 800 \<and> (0::int) < 600
   \<and> styleX (resolveOverlayStyle (Some sampleOverlay) 800 600) = 0
   \<and> styleY (resolveOverlayStyle (Some sampleOverlay) 800 600) = 420
   \<and> styleX (resolveOverlayStyle (Some sampleOverlay) 800 600)
       + styleWidth (resolveOverlayStyle (Some sampleOverlay) 800 600) \<le> 800
   \<and> styleY (resolveOverlayStyle (Some sampleOverlay) 800 600)
       + styleHeight (resolveOverlayStyle (Some sampleOverlay) 800 600) \<le> 600"
proof -
  have pos: "(0::int) < 800" "(0::int) < 600" by simp_all
  show ?thesis
    using resolveOverlayStyle_within_bounds [OF pos, of "Some sampleOverlay"]
    by (simp add: sampleOverlay_resolved)
qed

subsection \<open>Pricing modes\<close>

lemma mathMin_finite: "rs \<noteq> [] \<Longrightarrow> mathMin (map Num rs) = Num (Min (set rs))"
proof (induction rs)
  case Nil
  then show ?case by simp
next
  case (Cons r rs)
  show ?case
  proof (cases "rs = []")
    case True
    then show ?thesis by simp
  next
    case False
    with Cons show ?thesis by (simp add: Min_insert)
  qed
qed

lemma mathMax_finite: "rs \<noteq> [] \<Longrightarrow> mathMax (map Num rs) = Num (Max (set rs))"
proof (induction rs)
  case Nil
  then show ?case by simp
next
  case (Cons r rs)
  show ?case
  proof (cases "rs = []")
    case True
    then show ?thesis by simp
  next
    case False
    with Cons show ?thesis by (simp add: Max_insert)
  qed
qed

text \<open>
  C8 (amended). With pricingMode MIN_MAX_RANGE, \<open>buildProductRecord\<close> takes the variant
  prices that are neither null nor empty (\<open>.filter(Boolean)\<close>). When there is none, the
  price is null. Otherwise the price is \<open>{min, max}\<close> with
  \<open>min = String(Math.min(...))\<close> and \<open>max = String(Math.max(...))\<close> of their \<open>Number\<close>
  values; when every one of them parses to a finite number, these are the numeric minimum
  and maximum, formatted back to strings.
\<close>

theorem minMaxRange_price:
  assumes "pricingModeOf settings = Some MIN_MAX_RANGE"
  shows "(truthyPrices (accVariants product) = [] \<longrightarrow>
            priceOf (buildProductRecord jsNumber jsString product settings) = PriceNull)
       \<and> (truthyPrices (accVariants product) \<noteq> [] \<longrightarrow>
            priceOf (buildProductRecord jsNumber jsString product settings) =
              PriceRange (jsString (mathMin (map jsNumber (truthyPrices (accVariants product)))))
                (jsString (mathMax (map jsNumber (truthyPrices (accVariants product))))))
       \<and> (\<forall>rs. rs \<noteq> [] \<and> map jsNumber (truthyPrices (accVariants product)) = map Num rs \<longrightarrow>
            priceOf (buildProductRecord jsNumber jsString product settings) =
              PriceRange (jsString (Num (Min (set rs)))) (jsString (Num (Max (set rs)))))"
proof -
  let ?ps = "truthyPrices (accVariants product)"
  have p: "priceOf (buildProductRecord jsNumber jsString product settings) =
      (if ?ps = [] then PriceNull
       else PriceRange (jsString (mathMin (map jsNumber ?ps))) (jsString (mathMax (map jsNumber ?ps))))"
    using assms by (simp add: buildProductRecord_def resolvePrice_def Let_def)
  have "priceOf (buildProductRecord jsNumber jsString product settings) =
      PriceRange (jsString (Num (Min (set rs)))) (jsString (Num (Max (set rs))))"
    if "rs \<noteq> []" and "map jsNumber ?ps = map Num rs" for rs
  proof -
    from that have "?ps \<noteq> []" by auto
    with that p show ?thesis
      by (simp add: mathMin_finite mathMax_finite)
  qed
  with p show ?thesis by simp
qed

lemma truthyPrices_sample:
  "truthyPrices [sampleVariant ''A'' (Some ''25''), sampleVariant ''B'' None,
       sampleVariant ''C'' (Some ''''), sampleVariant ''D'' (Some ''10''),
       sampleVariant ''E'' (Some ''19.99'')] = [''25'', ''10'', ''19.99'']"
  by (simp add: truthyPrices_def sampleVariant_def)

theorem minMaxRange_price_witness:
  "pricingModeOf sampleSettings = Some MIN_MAX_RANGE
   \<and> priceOf (buildProductRecord sampleNumber sampleString
        (sampleProduct [sampleVariant ''A'' (Some ''25''), sampleVariant ''B'' None,
           sampleVariant ''C'' (Some ''''), sampleVariant ''D'' (Some ''10''),
           sampleVariant ''E'' (Some ''19.99'')]) sampleSettings) = PriceRange ''10'' ''25''
   \<and> priceOf (buildProductRecord sampleNumber sampleString
        (sampleProduct [sampleVariant ''B'' None, sampleVariant ''C'' (Some '''')]) sampleSettings)
       = PriceNull"
proof -
  have m: "pricingModeOf sampleSettings = Some MIN_MAX_RANGE"
    by (simp add: sampleSettings_def)
  let ?vs = "[sampleVariant ''A'' (Some ''25''), sampleVariant ''B'' None,
       sampleVariant ''C'' (Some ''''), sampleVariant ''D'' (Some ''10''),
       sampleVariant ''E'' (Some ''19.99'')]"
  have n: "map sampleNumber (truthyPrices (accVariants (sampleProduct ?vs))) = map Num [25, 10, 1999 / 100]"
    by (simp add: sampleProduct_def truthyPrices_sample sampleNumber_def)
  have e: "truthyPrices (accVariants (sampleProduct [sampleVariant ''B'' None, sampleVariant ''C'' (Some '''')])) = []"
    by (simp add: sampleProduct_def truthyPrices_def sampleVariant_def)
  from minMaxRange_price [OF m, of "sampleProduct ?vs" sampleNumber sampleString] n
  have "priceOf (buildProductRecord sampleNumber sampleString (sampleProduct ?vs) sampleSettings)
      = PriceRange (sampleString (Num (Min (set [25, 10, 1999 / 100])))) (sampleString (Num (Max (set [25, 10, 1999 / 100]))))"
    by blast
  moreover have "Min (set [25, 10, 1999 / 100 :: real]) = 10" "Max (set [25, 10, 1999 / 100 :: real]) = 25"
    by simp_all
  ultimately have a: "priceOf (buildProductRecord sampleNumber sampleString (sampleProduct ?vs) sampleSettings)
      = PriceRange ''10'' ''25''" by simp
  from minMaxRange_price [OF m, of "sampleProduct [sampleVariant ''B'' None, sampleVariant ''C'' (Some '''')]" sampleNumber sampleString] e
  have b: "priceOf (buildProductRecord sampleNumber sampleString
        (sampleProduct [sampleVariant ''B'' None, sampleVariant ''C'' (Some '''')]) sampleSettings) = PriceNull"
    by blast
  from m a b show ?thesis by blast
qed

text \<open>
  C8 as stated lets every non-null price take part. A product whose only variant has the
  empty string as its price has a non-null price, and a range \<open>{"0", "0"}\<close> under that
  reading; the code gives it the null price.
\<close>

theorem minMaxRange_empty_price_counterexample:
  "nonNullPrices (accVariants (sampleProduct [sampleVariant ''C'' (Some '''')])) = ['''']
   \<and> minMaxOfNonNull sampleNumber sampleString (accVariants (sampleProduct [sampleVariant ''C'' (Some '''')]))
       = PriceRange ''0'' ''0''
   \<and> priceOf (buildProductRecord sampleNumber sampleString
        (sampleProduct [sampleVariant ''C'' (Some '''')]) sampleSettings) = PriceNull"
  by (simp add: nonNullPrices_def minMaxOfNonNull_def sampleProduct_def sampleVariant_def
      sampleNumber_def sampleSettings_def buildProductRecord_def resolvePrice_def truthyPrices_def)

subsection \<open>PDF pagination\<close>

text \<open>A header ends the page being filled: the loops split at every header.\<close>

lemma gridColumnLoop_header_split:
  "gridColumnLoop lib cp k (xs @ Header t # ys) ops =
     (case gridColumnLoop lib cp k xs ops of
        Inl e \<Rightarrow> Inl e
      | Inr (ops', rest) \<Rightarrow> Inr (ops', rest @ Header t # ys))"
proof (induction k arbitrary: xs ops)
  case 0
  then show ?case by simp
next
  case (Suc k)
  show ?case
  proof (cases xs)
    case Nil
    then show ?thesis by simp
  next
    case (Cons item rest)
    then show ?thesis
      by (cases item) (simp_all add: Suc.IH split: sum.splits)
  qed
qed

lemma gridRowLoop_header_split:
  "gridRowLoop lib cp n columns (xs @ Header t # ys) ops =
     (case gridRowLoop lib cp n columns xs ops of
        Inl e \<Rightarrow> Inl e
      | Inr (ops', rest) \<Rightarrow> Inr (ops', rest @ Header t # ys))"
proof (induction n arbitrary: xs ops)
  case 0
  then show ?case by simp
next
  case (Suc n)
  then show ?case
    by (simp add: gridColumnLoop_header_split split: sum.splits prod.splits)
qed

lemma gridPageLoop_header_split:
  "gridPageLoop lib cp wm sz columns (xs @ Header t # ys) =
     (case gridPageLoop lib cp wm sz columns xs of
        Inl e \<Rightarrow> Inl e
      | Inr ps \<Rightarrow>
          (case drawAll [drawWatermark lib wm, drawHeaderPage lib t] of
             Inl e \<Rightarrow> Inl e
           | Inr ops \<Rightarrow>
               (case gridPageLoop lib cp wm sz columns ys of
                  Inl e \<Rightarrow> Inl e
                | Inr qs \<Rightarrow>
                    Inr (ps @ \<lparr> pageWidth = fst sz, pageHeight = snd sz, pageOps = ops \<rparr> # qs))))"
proof (induction lib cp wm sz columns xs rule: gridPageLoop.induct)
  case (1 lib cp wm sz columns)
  then show ?case by (simp split: sum.splits)
next
  case (2 lib cp wm sz columns t' items)
  show ?case
  proof (cases "drawAll [drawWatermark lib wm, drawHeaderPage lib t']")
    case (Inl e)
    then show ?thesis by simp
  next
    case (Inr ops)
    from "2.IH" [OF Inr] Inr show ?thesis by (simp split: sum.splits)
  qed
next
  case (3 lib cp wm sz columns r items)
  show ?case
  proof (cases "drawWatermark lib wm")
    case (Inl e)
    then show ?thesis by simp
  next
    case mark: (Inr mark)
    show ?thesis
    proof (cases "gridRowLoop lib cp 3 (columnsOf columns) (Product r # items) mark")
      case (Inl e)
      then show ?thesis
        using mark gridRowLoop_header_split [of lib cp 3 "columnsOf columns" "Product r # items" t ys mark]
        by simp
    next
      case (Inr res)
      obtain ops' rest where res: "res = (ops', rest)" by (cases res)
      from "3.IH" [OF mark Inr res [symmetric]] Inr res mark
      show ?thesis
        using gridRowLoop_header_split [of lib cp 3 "columnsOf columns" "Product r # items" t ys mark]
        by (simp split: sum.splits)
    qed
  qed
qed

lemma gridColumnLoop_products:
  "gridColumnLoop lib cp k (map Product rs) ops = Inr (ops', rest)
     \<Longrightarrow> rest = map Product (drop k rs)"
proof (induction k arbitrary: rs ops)
  case 0
  then show ?case by simp
next
  case (Suc k)
  show ?case
  proof (cases rs)
    case Nil
    with Suc.prems show ?thesis by simp
  next
    case (Cons r rs')
    with Suc.prems obtain cell where
      "gridColumnLoop lib cp k (map Product rs') (ops @ cell) = Inr (ops', rest)"
      by (auto split: sum.splits)
    from Suc.IH [OF this] Cons show ?thesis by simp
  qed
qed

lemma gridRowLoop_products:
  "gridRowLoop lib cp n columns (map Product rs) ops = Inr (ops', rest)
     \<Longrightarrow> rest = map Product (drop (n * columns) rs)"
proof (induction n arbitrary: rs ops)
  case 0
  then show ?case by simp
next
  case (Suc n)
  from Suc.prems obtain ops1 items1 where
    c: "gridColumnLoop lib cp columns (map Product rs) ops = Inr (ops1, items1)" and
    r: "gridRowLoop lib cp n columns items1 ops1 = Inr (ops', rest)"
    by (auto split: sum.splits)
  from gridColumnLoop_products [OF c] have i: "items1 = map Product (drop columns rs)" .
  from Suc.IH [of "drop columns rs" ops1] r i
  have "rest = map Product (drop (n * columns) (drop columns rs))" by simp
  then show ?case by (simp add: add.commute)
qed

text \<open>Counting pages: one more page for every \<open>m\<close> further products.\<close>

lemma pages_step:
  assumes "0 < m" "0 < (n::nat)"
  shows "Suc (((n - m) + m - 1) div m) = (n + m - 1) div m"
proof (cases "m \<le> n")
  case True
  then have a: "(n - m) + m - 1 = n - 1" by simp
  from assms have b: "(n + m - 1) = (n - 1) + m" by simp
  from assms(1) have "(n - 1 + m) div m = Suc ((n - 1) div m)" by simp
  with a b show ?thesis by simp
next
  case False
  with assms have a: "(n - m) + m - 1 = m - 1" and b: "m * 1 \<le> n + m - 1"
    and c: "n + m - 1 < m * Suc 1" by simp_all
  from assms have d: "(m - 1) div m = 0" by simp
  from b c have "(n + m - 1) div m = 1" by (rule div_nat_eqI)
  with a d show ?thesis by simp
qed

lemma ceiling_pages:
  assumes "0 < (m::nat)"
  shows "int ((n + m - 1) div m) = \<lceil>real n / real m\<rceil>"
proof -
  define q where "q = (n + m - 1) div m"
  have lo: "q * m \<le> n + m - 1" unfolding q_def by simp
  have hi: "n + m - 1 < m + q * m" unfolding q_def using assms
    by (rule dividend_less_div_times)
  from hi assms have up: "n \<le> q * m" by simp
  from lo assms have "real (q * m) \<le> real (n + m - 1)" by (simp only: of_nat_le_iff)
  with assms have "real q * real m \<le> real n + real m - 1" by (simp add: of_nat_diff)
  then have "(real q - 1) * real m < real n" by (simp add: algebra_simps)
  with assms have low: "real q - 1 < real n / real m" by (simp add: pos_less_divide_eq)
  from up have "real n \<le> real (q * m)" by (simp only: of_nat_le_iff)
  with assms have upr: "real n / real m \<le> real q" by (simp add: pos_divide_le_eq)
  have "\<lceil>real n / real m\<rceil> = int q"
    by (rule ceiling_unique) (use low upr in simp_all)
  then show ?thesis by (simp add: q_def)
qed

lemma gridPageLoop_products:
  "gridPageLoop lib cp wm sz columns (map Product rs) = Inr pages
     \<Longrightarrow> length pages = (length rs + 3 * columnsOf columns - 1) div (3 * columnsOf columns)"
proof (induction "length rs" arbitrary: rs pages rule: less_induct)
  case less
  have m: "0 < 3 * columnsOf columns" by (cases columns) simp_all
  show ?case
  proof (cases rs)
    case Nil
    with less.prems m show ?thesis by simp
  next
    case (Cons r rs')
    with less.prems obtain mark ops rest pages' where
      row: "gridRowLoop lib cp 3 (columnsOf columns) (map Product rs) mark = Inr (ops, rest)" and
      rec: "gridPageLoop lib cp wm sz columns rest = Inr pages'" and
      pages: "pages = \<lparr> pageWidth = fst sz, pageHeight = snd sz, pageOps = ops \<rparr> # pages'"
      by (auto split: sum.splits)
    from gridRowLoop_products [OF row]
    have rest: "rest = map Product (drop (3 * columnsOf columns) rs)" .
    from Cons m have shorter: "length (drop (3 * columnsOf columns) rs) < length rs" by simp
    from less.hyps [OF shorter] rec rest
    have "length pages' =
        (length rs - 3 * columnsOf columns + 3 * columnsOf columns - 1) div (3 * columnsOf columns)"
      by simp
    with pages pages_step [OF m, of "length rs"] Cons show ?thesis by simp
  qed
qed

text \<open>
  The layout returns when the cover files can be read and the font encodes the texts.
\<close>

lemma drawAll_returns: "list_all (\<lambda>d. \<not> isl d) ds \<Longrightarrow> \<exists>ops. drawAll ds = Inr ops"
proof (induction ds)
  case Nil
  then show ?case by simp
next
  case (Cons d ds)
  then obtain rest where "drawAll ds = Inr rest" by auto
  with Cons.prems show ?case by (cases d) simp_all
qed

lemma drawAll_isl: "list_all (\<lambda>d. \<not> isl d) ds \<Longrightarrow> \<not> isl (drawAll ds)"
  using drawAll_returns [of ds] by auto

lemma drawText_returns: "encodeText lib t = None \<Longrightarrow> \<not> isl (drawText lib t sz alpha)"
  by (simp add: drawText_def)

lemma drawImageOrPlaceholder_total:
  "coverReadable lib (Product r) \<Longrightarrow> \<not> isl (drawImageOrPlaceholder lib r)"
  by (cases "readFile lib (the (localCoverPath r))")
     (auto simp: drawImageOrPlaceholder_def split: if_splits)

lemma drawVariantRow_returns:
  "list_all (\<lambda>t. encodeText lib t = None) (variantTexts cp variant)
     \<Longrightarrow> \<not> isl (drawVariantRow lib cp sz variant)"
  unfolding drawVariantRow_def
  by (rule drawAll_isl) (auto simp: variantTexts_def drawText_returns split: option.splits)

lemma drawPriceLine_returns:
  "list_all (\<lambda>t. encodeText lib t = None)
       (case formatPrice p cp of None \<Rightarrow> [] | Some priceText \<Rightarrow> if priceText = [] then [] else [priceText])
     \<Longrightarrow> \<not> isl (drawPriceLine lib cp sz p)"
  by (auto simp: drawPriceLine_def drawText_returns split: option.splits)

lemma variant_rows_return:
  assumes "list_all (\<lambda>t. encodeText lib t = None) (concat (map (variantTexts cp) variants))"
  shows "list_all (\<lambda>d. \<not> isl d) (map (drawVariantRow lib cp sz) (take n variants))"
proof -
  have "\<not> isl (drawVariantRow lib cp sz v)" if "v \<in> set (take n variants)" for v
  proof -
    from that have "v \<in> set variants" by (rule in_set_takeD)
    with assms have "list_all (\<lambda>t. encodeText lib t = None) (variantTexts cp v)"
      by (auto simp: list_all_iff)
    then show ?thesis by (rule drawVariantRow_returns)
  qed
  then show ?thesis by (simp add: list_all_iff)
qed

lemma more_line_returns:
  assumes "length variants > n \<Longrightarrow>
      encodeText lib (''+'' @ showNat (length variants - n) @ suffix) = None"
  shows "list_all (\<lambda>d. \<not> isl d)
     (if length variants > length (take n variants)
      then [drawText lib (''+'' @ showNat (length variants - length (take n variants)) @ suffix) sz None]
      else [])"
proof (cases "length variants > n")
  case True
  then have "length (take n variants) = n" by simp
  with True assms show ?thesis by (simp add: drawText_returns)
next
  case False
  then have "length (take n variants) = length variants" by simp
  then show ?thesis by simp
qed

lemma price_line_returns:
  assumes "encodable lib cp (Product r)" and "\<And>variants. priceOf r \<noteq> PriceVariants variants"
  shows "\<not> isl (drawPriceLine lib cp sz (priceOf r))"
proof -
  from assms have "list_all (\<lambda>t. encodeText lib t = None)
      (case formatPrice (priceOf r) cp of
         None \<Rightarrow> [] | Some priceText \<Rightarrow> if priceText = [] then [] else [priceText])"
    by (cases "priceOf r") (auto simp: recordTexts_def)
  then show ?thesis by (rule drawPriceLine_returns)
qed

lemma drawOnePerPage_total:
  assumes "coverReadable lib (Product r)" and "encodable lib cp (Product r)"
  shows "\<exists>ops. drawOnePerPage lib cp r = Inr ops"
proof -
  from assms(2) have t: "\<not> isl (drawText lib (orElse (title r) ''Untitled'') 18 None)"
    by (simp add: recordTexts_def drawText_returns)
  note i = drawImageOrPlaceholder_total [OF assms(1)]
  have "list_all (\<lambda>d. \<not> isl d)
     (case priceOf r of
        PriceVariants variants \<Rightarrow>
          (let rows = take 8 variants
           in [drawText lib ''Variants'' 12 None]
              @ map (drawVariantRow lib cp 10) rows
              @ (if length variants > length rows
                 then [drawText lib (''+'' @ showNat (length variants - length rows)
                                     @ '' more variants'') 9 None]
                 else []))
      | p \<Rightarrow> [drawPriceLine lib cp 14 p])"
  proof (cases "\<exists>variants. priceOf r = PriceVariants variants")
    case True
    then obtain variants where pv: "priceOf r = PriceVariants variants" by blast
    with assms(2) have v: "list_all (\<lambda>t. encodeText lib t = None) (concat (map (variantTexts cp) variants))"
      and h: "encodeText lib ''Variants'' = None"
      and m: "length variants > 8 \<Longrightarrow>
          encodeText lib (''+'' @ showNat (length variants - 8) @ '' more variants'') = None"
      by (simp_all add: recordTexts_def)
    note rows = variant_rows_return [OF v, of 10 8]
    note more = more_line_returns [of 8 variants lib "'' more variants''" 9, OF m]
    from h have "\<not> isl (drawText lib ''Variants'' 12 None)" by (rule drawText_returns)
    with rows more show ?thesis
      unfolding pv price.case Let_def list_all_append by simp
  next
    case False
    then have n: "\<And>variants. priceOf r \<noteq> PriceVariants variants" by blast
    from price_line_returns [OF assms(2) n, of 14] False show ?thesis
      by (cases "priceOf r") simp_all
  qed
  with t i show ?thesis
    unfolding drawOnePerPage_def by (intro drawAll_returns) simp
qed

lemma drawGridCell_total:
  assumes "coverReadable lib (Product r)" and "encodable lib cp (Product r)"
  shows "\<exists>ops. drawGridCell lib cp r = Inr ops"
proof -
  from assms(2) have t: "\<not> isl (drawText lib (orElse (title r) ''Untitled'') 10 None)"
    by (simp add: recordTexts_def drawText_returns)
  note i = drawImageOrPlaceholder_total [OF assms(1)]
  have "list_all (\<lambda>d. \<not> isl d)
     (case priceOf r of
        PriceVariants variants \<Rightarrow>
          (let rows = take 2 variants
           in map (drawVariantRow lib cp 8) rows
              @ (if length variants > length rows
                 then [drawText lib (''+'' @ showNat (length variants - length rows)
                                     @ '' more'') 7 None]
                 else []))
      | p \<Rightarrow> [drawPriceLine lib cp 9 p])"
  proof (cases "\<exists>variants. priceOf r = PriceVariants variants")
    case True
    then obtain variants where pv: "priceOf r = PriceVariants variants" by blast
    with assms(2) have v: "list_all (\<lambda>t. encodeText lib t = None) (concat (map (variantTexts cp) variants))"
      and m: "length variants > 2 \<Longrightarrow>
          encodeText lib (''+'' @ showNat (length variants - 2) @ '' more'') = None"
      by (simp_all add: recordTexts_def)
    note rows = variant_rows_return [OF v, of 8 2]
    note more = more_line_returns [of 2 variants lib "'' more''" 7, OF m]
    from rows more show ?thesis
      unfolding pv price.case Let_def list_all_append by simp
  next
    case False
    then have n: "\<And>variants. priceOf r \<noteq> PriceVariants variants" by blast
    from price_line_returns [OF assms(2) n, of 9] False show ?thesis
      by (cases "priceOf r") simp_all
  qed
  with t i show ?thesis
    unfolding drawGridCell_def by (intro drawAll_returns) simp
qed

lemma header_page_returns:
  "drawWatermark lib wm = Inr mark \<Longrightarrow> encodeText lib t = None
     \<Longrightarrow> drawAll [drawWatermark lib wm, drawHeaderPage lib t] = Inr (mark @ [DrawText t 28 None])"
  by (simp add: drawHeaderPage_def drawText_def)

lemma onePerPageLoop_total:
  assumes "drawWatermark lib wm = Inr mark"
  shows "list_all (coverReadable lib) items \<Longrightarrow> list_all (encodable lib cp) items
     \<Longrightarrow> \<exists>pages. onePerPageLoop lib cp wm sz items = Inr pages"
proof (induction items)
  case Nil
  then show ?case by simp
next
  case (Cons item items)
  then obtain pages where p: "onePerPageLoop lib cp wm sz items = Inr pages" by auto
  show ?case
  proof (cases item)
    case (Header t)
    with Cons.prems have "encodeText lib t = None" by simp
    from header_page_returns [OF assms this] p Header show ?thesis by simp
  next
    case (Product r)
    with Cons.prems obtain ops where "drawOnePerPage lib cp r = Inr ops"
      using drawOnePerPage_total [of lib r cp] by auto
    with p Product assms show ?thesis by simp
  qed
qed

lemma onePerPageLoop_length:
  "onePerPageLoop lib cp wm sz items = Inr pages \<Longrightarrow> length pages = length items"
proof (induction items arbitrary: pages)
  case Nil
  then show ?case by simp
next
  case (Cons item items)
  then show ?case
    by (cases item) (auto split: sum.splits)
qed

lemma gridColumnLoop_total:
  "list_all (coverReadable lib) items \<Longrightarrow> list_all (encodable lib cp) items
     \<Longrightarrow> \<exists>ops' rest. gridColumnLoop lib cp k items ops = Inr (ops', rest)
           \<and> list_all (coverReadable lib) rest \<and> list_all (encodable lib cp) rest"
proof (induction k arbitrary: items ops)
  case 0
  then show ?case by simp
next
  case (Suc k)
  show ?case
  proof (cases items)
    case Nil
    then show ?thesis by simp
  next
    case (Cons item rest)
    show ?thesis
    proof (cases item)
      case (Header t)
      with Cons Suc.prems show ?thesis by simp
    next
      case (Product r)
      with Cons Suc.prems obtain cell where c: "drawGridCell lib cp r = Inr cell"
        using drawGridCell_total [of lib r cp] by auto
      from Cons Suc.prems have "list_all (coverReadable lib) rest" "list_all (encodable lib cp) rest"
        by simp_all
      from Suc.IH [OF this, of "ops @ cell"] c Cons Product show ?thesis by simp
    qed
  qed
qed

lemma gridRowLoop_total:
  "list_all (coverReadable lib) items \<Longrightarrow> list_all (encodable lib cp) items
     \<Longrightarrow> \<exists>ops' rest. gridRowLoop lib cp n columns items ops = Inr (ops', rest)
           \<and> list_all (coverReadable lib) rest \<and> list_all (encodable lib cp) rest"
proof (induction n arbitrary: items ops)
  case 0
  then show ?case by simp
next
  case (Suc n)
  from gridColumnLoop_total [OF Suc.prems, of columns ops] obtain ops1 items1 where
    c: "gridColumnLoop lib cp columns items ops = Inr (ops1, items1)" and
    a: "list_all (coverReadable lib) items1" "list_all (encodable lib cp) items1" by blast
  from Suc.IH [OF a, of ops1] c show ?case by simp
qed

lemma gridPageLoop_total:
  assumes "drawWatermark lib wm = Inr mark"
  shows "list_all (coverReadable lib) items \<Longrightarrow> list_all (encodable lib cp) items
     \<Longrightarrow> \<exists>pages. gridPageLoop lib cp wm sz columns items = Inr pages"
proof (induction "length items" arbitrary: items rule: less_induct)
  case less
  show ?case
  proof (cases items)
    case Nil
    then show ?thesis by simp
  next
    case (Cons item rest)
    show ?thesis
    proof (cases item)
      case (Header t)
      with Cons less.prems have e: "encodeText lib t = None"
        and r: "list_all (coverReadable lib) rest" "list_all (encodable lib cp) rest" by simp_all
      from Cons have "length rest < length items" by simp
      from less.hyps [OF this r] obtain pages where
        "gridPageLoop lib cp wm sz columns rest = Inr pages" by blast
      with header_page_returns [OF assms e] Cons Header show ?thesis by simp
    next
      case (Product r)
      from gridRowLoop_total [OF less.prems, of 3 "columnsOf columns" mark]
      obtain ops rest' where
        row: "gridRowLoop lib cp 3 (columnsOf columns) items mark = Inr (ops, rest')" and
        a: "list_all (coverReadable lib) rest'" "list_all (encodable lib cp) rest'" by blast
      obtain k where k: "columnsOf columns = Suc k" using columnsOf_Suc by blast
      from row Cons Product k
      have "gridRowLoop lib cp (Suc 2) (Suc k) (Product r # rest) mark = Inr (ops, rest')"
        by (simp add: numeral_3_eq_3)
      from gridRowLoop_progress [OF this] Cons have "length rest' < length items" by simp
      from less.hyps [OF this a] obtain pages where
        "gridPageLoop lib cp wm sz columns rest' = Inr pages" by blast
      with row Cons Product assms show ?thesis by simp
    qed
  qed
qed

lemma watermark_drawn:
  "watermarkEncodable lib settings \<Longrightarrow> \<exists>mark. drawWatermark lib (watermarkOf settings) = Inr mark"
  by (cases "watermarkOf settings")
     (auto simp: watermarkEncodable_def drawWatermark_def drawText_def)

lemma layout_default:
  "orElse (layoutTypeOf settings) GRID = ONE_PER_PAGE \<longleftrightarrow> layoutTypeOf settings = Some ONE_PER_PAGE"
  by (cases "layoutTypeOf settings") auto

lemma pageSize_default:
  "orElse (pageSizeOf settings) A4 = LETTER \<longleftrightarrow> pageSizeOf settings = Some LETTER"
  by (cases "pageSizeOf settings") auto



lemma layoutPages_header_split:
  assumes "layoutTypeOf settings \<noteq> Some ONE_PER_PAGE"
  shows "layoutPages lib settings (xs @ Header t # ys) =
            (case layoutPages lib settings xs of
               Inl e \<Rightarrow> Inl e
             | Inr ps \<Rightarrow>
                 (case drawWatermark lib (watermarkOf settings) of
                    Inl e \<Rightarrow> Inl e
                  | Inr mark \<Rightarrow>
                      (case encodeText lib t of
                         Some e \<Rightarrow> Inl e
                       | None \<Rightarrow>
                           (case layoutPages lib settings ys of
                              Inl e \<Rightarrow> Inl e
                            | Inr qs \<Rightarrow>
                                Inr (ps @ \<lparr> pageWidth = (if pageSizeOf settings = Some LETTER then 612 else 595),
                                             pageHeight = (if pageSizeOf settings = Some LETTER then 792 else 842),
                                             pageOps = mark @ [DrawText t 28 None] \<rparr>
                                          # qs)))))"
proof -
  have h: "drawAll [drawWatermark lib wm, drawHeaderPage lib t] =
      (case drawWatermark lib wm of
         Inl e \<Rightarrow> Inl e
       | Inr mark \<Rightarrow>
           (case encodeText lib t of
              Some e \<Rightarrow> Inl e
            | None \<Rightarrow> Inr (mark @ [DrawText t 28 None])))" for wm
    by (simp add: drawHeaderPage_def drawText_def split: sum.splits option.splits)
  define sz :: "nat \<times> nat" where
    "sz = (if pageSizeOf settings = Some LETTER then (612, 792) else (595, 842))"
  define cp where "cp = currencyPrefix settings"
  define c where "c = orElse (gridColumnsOf settings) Columns3"
  have g: "layoutPages lib settings items = gridPageLoop lib cp (watermarkOf settings) sz c items"
    for items
    using assms
    by (simp add: layoutPages_def Let_def layout_default pageSize_default sz_def cp_def c_def)
  have sz: "fst sz = (if pageSizeOf settings = Some LETTER then 612 else 595)"
    "snd sz = (if pageSizeOf settings = Some LETTER then 792 else 842)"
    by (simp_all add: sz_def)
  show ?thesis
    unfolding g gridPageLoop_header_split h sz
    by (simp split: sum.splits option.splits)
qed

text \<open>
  C2. For every grouped item sequence. With layoutType ONE_PER_PAGE the layout returns
  (when every stored cover can be read and the font encodes the watermark and the texts of
  the items) and adds exactly one page per item, header or product. With the GRID layout
  (chosen, or by default) and \<open>c\<close> columns the layout returns under the same condition; a
  header always takes one page of its own, which holds the watermark (if any) and the
  title and no product cell, with the items before it and after it laid out separately;
  and a run of \<open>n\<close> products is laid out on exactly \<open>ceil(n / (3 * c))\<close> pages. These are
  the pages that \<open>buildPdf\<close> adds: the document it stores has them, and one empty page when
  there is no item.
\<close>

theorem buildPdf_page_counts:
  "(layoutTypeOf settings = Some ONE_PER_PAGE \<longrightarrow>
      (list_all (coverReadable lib) items
         \<and> list_all (encodable lib (currencyPrefix settings)) items
         \<and> watermarkEncodable lib settings
         \<longrightarrow> (\<exists>pages. layoutPages lib settings items = Inr pages))
      \<and> (\<forall>pages. layoutPages lib settings items = Inr pages \<longrightarrow> length pages = length items))
   \<and> (layoutTypeOf settings \<noteq> Some ONE_PER_PAGE \<longrightarrow>
      (list_all (coverReadable lib) items
         \<and> list_all (encodable lib (currencyPrefix settings)) items
         \<and> watermarkEncodable lib settings
         \<longrightarrow> (\<exists>pages. layoutPages lib settings items = Inr pages))
      \<and> (\<forall>xs t ys. layoutPages lib settings (xs @ Header t # ys) =
            (case layoutPages lib settings xs of
               Inl e \<Rightarrow> Inl e
             | Inr ps \<Rightarrow>
                 (case drawWatermark lib (watermarkOf settings) of
                    Inl e \<Rightarrow> Inl e
                  | Inr mark \<Rightarrow>
                      (case encodeText lib t of
                         Some e \<Rightarrow> Inl e
                       | None \<Rightarrow>
                           (case layoutPages lib settings ys of
                              Inl e \<Rightarrow> Inl e
                            | Inr qs \<Rightarrow>
                                Inr (ps @ \<lparr> pageWidth = (if pageSizeOf settings = Some LETTER then 612 else 595),
                                             pageHeight = (if pageSizeOf settings = Some LETTER then 792 else 842),
                                             pageOps = mark @ [DrawText t 28 None] \<rparr>
                                          # qs))))))
      \<and> (\<forall>rs pages. layoutPages lib settings (map Product rs) = Inr pages \<longrightarrow>
            int (length pages)
              = \<lceil>real (length rs) / real (3 * columnsOf (orElse (gridColumnsOf settings) Columns3))\<rceil>))
   \<and> (\<forall>pages. length (savedPages pages) = max 1 (length pages))"
proof (intro conjI impI allI)
  assume "layoutTypeOf settings = Some ONE_PER_PAGE"
    and a: "list_all (coverReadable lib) items
         \<and> list_all (encodable lib (currencyPrefix settings)) items
         \<and> watermarkEncodable lib settings"
  moreover from a obtain mark where "drawWatermark lib (watermarkOf settings) = Inr mark"
    using watermark_drawn by blast
  ultimately show "\<exists>pages. layoutPages lib settings items = Inr pages"
    by (simp add: layoutPages_def Let_def onePerPageLoop_total)
next
  fix pages
  assume "layoutTypeOf settings = Some ONE_PER_PAGE" and "layoutPages lib settings items = Inr pages"
  then show "length pages = length items"
    by (simp add: layoutPages_def Let_def onePerPageLoop_length)
next
  assume "layoutTypeOf settings \<noteq> Some ONE_PER_PAGE"
    and a: "list_all (coverReadable lib) items
         \<and> list_all (encodable lib (currencyPrefix settings)) items
         \<and> watermarkEncodable lib settings"
  moreover from a obtain mark where "drawWatermark lib (watermarkOf settings) = Inr mark"
    using watermark_drawn by blast
  ultimately show "\<exists>pages. layoutPages lib settings items = Inr pages"
    by (simp add: layoutPages_def Let_def layout_default gridPageLoop_total)
next
  fix xs t ys
  assume "layoutTypeOf settings \<noteq> Some ONE_PER_PAGE"
  then show "layoutPages lib settings (xs @ Header t # ys) =
            (case layoutPages lib settings xs of
               Inl e \<Rightarrow> Inl e
             | Inr ps \<Rightarrow>
                 (case drawWatermark lib (watermarkOf settings) of
                    Inl e \<Rightarrow> Inl e
                  | Inr mark \<Rightarrow>
                      (case encodeText lib t of
                         Some e \<Rightarrow> Inl e
                       | None \<Rightarrow>
                           (case layoutPages lib settings ys of
                              Inl e \<Rightarrow> Inl e
                            | Inr qs \<Rightarrow>
                                Inr (ps @ \<lparr> pageWidth = (if pageSizeOf settings = Some LETTER then 612 else 595),
                                             pageHeight = (if pageSizeOf settings = Some LETTER then 792 else 842),
                                             pageOps = mark @ [DrawText t 28 None] \<rparr>
                                          # qs)))))"
    by (rule layoutPages_header_split)
next
  fix rs pages
  let ?c = "orElse (gridColumnsOf settings) Columns3"
  assume g: "layoutTypeOf settings \<noteq> Some ONE_PER_PAGE"
    and "layoutPages lib settings (map Product rs) = Inr pages"
  then obtain wm sz cp where "gridPageLoop lib cp wm sz ?c (map Product rs) = Inr pages"
    by (simp add: layoutPages_def Let_def layout_default)
  from gridPageLoop_products [OF this]
  have "length pages = (length rs + 3 * columnsOf ?c - 1) div (3 * columnsOf ?c)" .
  moreover have "0 < 3 * columnsOf ?c" by (cases ?c) simp_all
  ultimately show "int (length pages) = \<lceil>real (length rs) / real (3 * columnsOf ?c)\<rceil>"
    using ceiling_pages by metis
next
  fix pages :: "page list"
  show "length (savedPages pages) = max 1 (length pages)"
    by (cases pages) (simp_all add: savedPages_def)
qed


theorem buildPdf_page_counts_witness:
  "layoutTypeOf sampleSettings \<noteq> Some ONE_PER_PAGE
   \<and> list_all (coverReadable sampleLib)
        (map Product (replicate 10 (sampleRecord (Some ''jobs/j1/images/products/mug/cover.png''))))
   \<and> list_all (encodable sampleLib (currencyPrefix sampleSettings))
        (map Product (replicate 10 (sampleRecord (Some ''jobs/j1/images/products/mug/cover.png''))))
   \<and> watermarkEncodable sampleLib sampleSettings
   \<and> (\<exists>pages. layoutPages sampleLib sampleSettings
          (map Product (replicate 10 (sampleRecord (Some ''jobs/j1/images/products/mug/cover.png''))))
          = Inr pages \<and> length pages = 2)
   \<and> layoutTypeOf (sampleSettings\<lparr>layoutTypeOf := Some ONE_PER_PAGE\<rparr>) = Some ONE_PER_PAGE
   \<and> (\<exists>pages. layoutPages sampleLib (sampleSettings\<lparr>layoutTypeOf := Some ONE_PER_PAGE\<rparr>)
          [Header ''Acme'', Product (sampleRecord None), Product (sampleRecord None)] = Inr pages
        \<and> length pages = 3)
   \<and> layoutPages sampleLib (sampleSettings\<lparr>layoutTypeOf := Some ONE_PER_PAGE\<rparr>)
        [Product ((sampleRecord None)\<lparr>title := Some [CHR 0x01]\<rparr>)]
       = Inl (Error ''WinAnsi cannot encode U+0001'')
   \<and> length (savedPages []) = 1"
proof -
  let ?r = "sampleRecord (Some ''jobs/j1/images/products/mug/cover.png'')"
  let ?one = "sampleSettings\<lparr>layoutTypeOf := Some ONE_PER_PAGE\<rparr>"
  let ?items = "[Header ''Acme'', Product (sampleRecord None), Product (sampleRecord None)]"
  have g: "layoutTypeOf sampleSettings \<noteq> Some ONE_PER_PAGE" by (simp add: sampleSettings_def)
  have c: "orElse (gridColumnsOf sampleSettings) Columns3 = Columns3" by (simp add: sampleSettings_def)
  have ok: "list_all (coverReadable sampleLib) (map Product (replicate 10 ?r))"
    by (simp add: list_all_iff sampleLib_def sampleRecord_def)
  have texts: "recordTexts (currencyPrefix s) (sampleRecord path) = [''Mug'', ''$10 - $25'']"
    if "currencyPrefix s = None" for s path
    using that by (simp add: recordTexts_def sampleRecord_def Let_def)
  have cp: "currencyPrefix sampleSettings = None" "currencyPrefix ?one = None"
    by (simp_all add: sampleSettings_def)
  have en: "list_all (encodable sampleLib (currencyPrefix sampleSettings)) (map Product (replicate 10 ?r))"
    by (simp add: list_all_iff texts [OF cp(1)] sampleLib_def sampleFont_def)
  have wm: "watermarkEncodable sampleLib sampleSettings"
    by (simp add: watermarkEncodable_def watermarkOf_def sampleSettings_def)
  have ok1: "list_all (coverReadable sampleLib) ?items"
    by (simp add: sampleRecord_def)
  have en1: "list_all (encodable sampleLib (currencyPrefix ?one)) ?items"
    by (simp add: texts [OF cp(1)] texts [OF cp(2)] sampleLib_def sampleFont_def)
  have wm1: "watermarkEncodable sampleLib ?one"
    by (simp add: watermarkEncodable_def watermarkOf_def sampleSettings_def)
  have o: "layoutTypeOf ?one = Some ONE_PER_PAGE" by simp
  have bad: "layoutPages sampleLib ?one [Product ((sampleRecord None)\<lparr>title := Some [CHR 0x01]\<rparr>)]
       = Inl (Error ''WinAnsi cannot encode U+0001'')"
    by (simp add: layoutPages_def Let_def sampleSettings_def watermarkOf_def drawWatermark_def
        drawOnePerPage_def drawImageOrPlaceholder_def sampleRecord_def drawText_def sampleLib_def
        sampleFont_def)
  note grid = buildPdf_page_counts [of sampleSettings sampleLib "map Product (replicate 10 ?r)"]
  from grid g ok en wm obtain pages where
    p: "layoutPages sampleLib sampleSettings (map Product (replicate 10 ?r)) = Inr pages" by blast
  from grid g p have "int (length pages) = \<lceil>real (length (replicate 10 ?r)) / real (3 * columnsOf Columns3)\<rceil>"
    unfolding c by blast
  then have "length pages = 2" by simp
  with p have a: "\<exists>pages. layoutPages sampleLib sampleSettings (map Product (replicate 10 ?r)) = Inr pages
      \<and> length pages = 2" by blast
  note one = buildPdf_page_counts [of ?one sampleLib ?items]
  from one o ok1 en1 wm1 obtain pages1 where
    p1: "layoutPages sampleLib ?one ?items = Inr pages1" by blast
  from one o p1 have "length pages1 = length ?items" by blast
  with p1 have b: "\<exists>pages. layoutPages sampleLib ?one ?items = Inr pages \<and> length pages = 3"
    by simp
  from grid have s: "length (savedPages []) = 1" by simp
  from g ok en wm a o b bad s show ?thesis by blast
qed

subsection \<open>Watermark\<close>

text \<open>The loops use the watermark through \<open>drawWatermark\<close> only.\<close>

lemma onePerPageLoop_watermark:
  "drawWatermark lib wm = drawWatermark lib wm'
     \<Longrightarrow> onePerPageLoop lib cp wm sz items = onePerPageLoop lib cp wm' sz items"
proof (induction items)
  case Nil
  then show ?case by simp
next
  case (Cons item items)
  from Cons.IH [OF Cons.prems] Cons.prems show ?case
    by (cases item) (simp_all split: sum.splits)
qed

lemma gridPageLoop_watermark:
  "drawWatermark lib wm = drawWatermark lib wm'
     \<Longrightarrow> gridPageLoop lib cp wm sz columns items = gridPageLoop lib cp wm' sz columns items"
proof (induction lib cp wm sz columns items rule: gridPageLoop.induct)
  case (1 lib cp wm sz columns)
  then show ?case by simp
next
  case (2 lib cp wm sz columns t items)
  show ?case
  proof (cases "drawAll [drawWatermark lib wm, drawHeaderPage lib t]")
    case (Inl e)
    moreover from "2.prems"
    have "drawAll [drawWatermark lib wm', drawHeaderPage lib t]
        = drawAll [drawWatermark lib wm, drawHeaderPage lib t]" by simp
    ultimately show ?thesis by (simp del: drawAll.simps)
  next
    case (Inr ops)
    moreover from "2.prems"
    have "drawAll [drawWatermark lib wm', drawHeaderPage lib t]
        = drawAll [drawWatermark lib wm, drawHeaderPage lib t]" by simp
    moreover note "2.IH" [OF Inr "2.prems"]
    ultimately show ?thesis by (simp del: drawAll.simps)
  qed
next
  case (3 lib cp wm sz columns r items)
  show ?case
  proof (cases "drawWatermark lib wm")
    case (Inl e)
    with "3.prems" have "drawWatermark lib wm' = Inl e" by simp
    with Inl show ?thesis by simp
  next
    case mark: (Inr mark)
    with "3.prems" have mark': "drawWatermark lib wm' = Inr mark" by simp
    show ?thesis
    proof (cases "gridRowLoop lib cp 3 (columnsOf columns) (Product r # items) mark")
      case (Inl e)
      with mark mark' show ?thesis by simp
    next
      case (Inr res)
      obtain ops rest where res: "res = (ops, rest)" by (cases res)
      from "3.IH" [OF mark Inr res [symmetric] "3.prems"] Inr res mark mark' show ?thesis by simp
    qed
  qed
qed

lemma layoutPages_watermark:
  assumes "drawWatermark lib (watermarkOf s) = drawWatermark lib (watermarkOf s')"
    and "pageSizeOf s = pageSizeOf s'" and "currencyPrefix s = currencyPrefix s'"
    and "layoutTypeOf s = layoutTypeOf s'" and "gridColumnsOf s = gridColumnsOf s'"
  shows "layoutPages lib s items = layoutPages lib s' items"
  using assms onePerPageLoop_watermark [OF assms(1)] gridPageLoop_watermark [OF assms(1)]
  by (simp add: layoutPages_def Let_def)

lemma groupKey_watermark:
  "groupKey g r (settings\<lparr>watermarkEnabled := e\<rparr>) = groupKey g r settings"
proof -
  have "selectCollectionTitle r (settings\<lparr>watermarkEnabled := e\<rparr>) = selectCollectionTitle r settings"
    by (simp add: selectCollectionTitle_def cong: list.case_cong option.case_cong if_cong)
  then show ?thesis by (simp add: groupKey_def)
qed

lemma buildGroupedItems_watermark:
  "buildGroupedItems records (settings\<lparr>watermarkEnabled := e\<rparr>) = buildGroupedItems records settings"
  unfolding buildGroupedItems_def groupKey_watermark by simp

text \<open>
  C10. When the watermark text is unset or empty, enabling the watermark draws nothing:
  \<open>drawWatermark\<close> issues no operation (and does not throw), and the pages of \<open>buildPdf\<close>
  are the pages it builds with the watermark disabled (set to false, or unset).
\<close>

theorem empty_watermark_draws_nothing:
  assumes "watermarkText settings = None \<or> watermarkText settings = Some []"
  shows "drawWatermark lib (watermarkOf (settings\<lparr>watermarkEnabled := Some True\<rparr>)) = Inr []
       \<and> buildPdfPages lib records (settings\<lparr>watermarkEnabled := Some True\<rparr>)
           = buildPdfPages lib records (settings\<lparr>watermarkEnabled := Some False\<rparr>)
       \<and> buildPdfPages lib records (settings\<lparr>watermarkEnabled := Some True\<rparr>)
           = buildPdfPages lib records (settings\<lparr>watermarkEnabled := None\<rparr>)"
proof -
  from assms have on: "drawWatermark lib (watermarkOf (settings\<lparr>watermarkEnabled := Some True\<rparr>)) = Inr []"
    by (auto simp: drawWatermark_def watermarkOf_def)
  have off: "drawWatermark lib (watermarkOf (settings\<lparr>watermarkEnabled := e\<rparr>)) = Inr []"
    if "e \<noteq> Some True" for e
    using that by (simp add: drawWatermark_def watermarkOf_def)
  have "layoutPages lib (settings\<lparr>watermarkEnabled := Some True\<rparr>) items
      = layoutPages lib (settings\<lparr>watermarkEnabled := e\<rparr>) items" if "e \<noteq> Some True" for e items
    by (rule layoutPages_watermark) (simp_all add: on off [OF that])
  then show ?thesis
    using on by (simp add: buildPdfPages_def buildGroupedItems_watermark)
qed

theorem empty_watermark_draws_nothing_witness:
  "watermarkText (sampleSettings\<lparr>watermarkText := Some []\<rparr>) = Some []
   \<and> drawWatermark sampleLib
        (watermarkOf (sampleSettings\<lparr>watermarkText := Some [], watermarkEnabled := Some True\<rparr>)) = Inr []
   \<and> buildPdfPages sampleLib [sampleRecord None]
        (sampleSettings\<lparr>watermarkText := Some [], watermarkEnabled := Some True\<rparr>)
      = buildPdfPages sampleLib [sampleRecord None]
        (sampleSettings\<lparr>watermarkText := Some [], watermarkEnabled := Some False\<rparr>)
   \<and> drawWatermark sampleLib
        (watermarkOf (sampleSettings\<lparr>watermarkText := Some ''DRAFT'', watermarkEnabled := Some True\<rparr>))
      = Inr [DrawText ''DRAFT'' 48 (Some (12 / 100))]"
proof -
  have t: "watermarkText (sampleSettings\<lparr>watermarkText := Some []\<rparr>) = None
      \<or> watermarkText (sampleSettings\<lparr>watermarkText := Some []\<rparr>) = Some []" by simp
  have d: "drawWatermark sampleLib
        (watermarkOf (sampleSettings\<lparr>watermarkText := Some ''DRAFT'', watermarkEnabled := Some True\<rparr>))
      = Inr [DrawText ''DRAFT'' 48 (Some (12 / 100))]"
    by (simp add: drawWatermark_def watermarkOf_def sampleSettings_def drawText_def sampleLib_def
        sampleFont_def)
  from empty_watermark_draws_nothing [OF t, of sampleLib "[sampleRecord None]"] d
  show ?thesis by simp
qed

subsection \<open>Reconstruction of products from a bulk result\<close>

lemma map_of_mapSet: "map_of (mapSet k v m) p = (if p = k then Some v else map_of m p)"
  by (induction m) auto

lemma map_fst_mapSet:
  "map fst (mapSet k v m) = (if k \<in> set (map fst m) then map fst m else map fst m @ [k])"
  by (induction m) (auto split: if_splits)

lemma keys_mapSet: "fst ` set (mapSet k v m) = insert k (fst ` set m)"
proof -
  have "set (map fst (mapSet k v m)) = insert k (set (map fst m))"
    unfolding map_fst_mapSet by auto
  then show ?thesis by simp
qed

lemma distinct_mapSet: "distinct (map fst m) \<Longrightarrow> distinct (map fst (mapSet k v m))"
  by (simp add: map_fst_mapSet)

lemma mapSet_mapSet: "mapSet k v (mapSet k w m) = mapSet k v m"
  by (induction m) auto

lemma getOrCreate_mapSet: "getOrCreate (mapSet k v m) k = v"
  by (simp add: getOrCreate_def map_of_mapSet)

lemma getOrCreate_mapSet_other: "p \<noteq> k \<Longrightarrow> getOrCreate (mapSet k v m) p = getOrCreate m p"
  by (simp add: getOrCreate_def map_of_mapSet)

text \<open>The loop body writes one accumulator, the one of the line's key.\<close>

lemma applyRecord_factored:
  "applyRecord r m =
     (case lineKey r of
        None \<Rightarrow> m
      | Some k \<Rightarrow> mapSet k (applyToAccumulator r (getOrCreate m k)) m)"
proof (cases "isTopLevel r")
  case True
  then obtain k where k: "lineId r = Some k" by (cases "lineId r") (auto simp: isTopLevel_def)
  with True show ?thesis
    by (simp add: applyRecord_def lineKey_def applyToAccumulator_def imagesOfLine_def
        isTopLevel_def Let_def)
next
  case notTop: False
  show ?thesis
  proof (cases "isVariantLine r")
    case True
    then obtain k where k: "lineParentId r = Some k"
      by (cases "lineParentId r") (auto simp: isVariantLine_def)
    from True have "\<not> isImageLine r" "\<not> isCollectionLine r"
      by (auto simp: isVariantLine_def isImageLine_def isCollectionLine_def)
    with True notTop k show ?thesis
      by (simp add: applyRecord_def lineKey_def applyToAccumulator_def imagesOfLine_def
          variantsOfLine_def collectionsOfLine_def isTopLevel_def isVariantLine_def Let_def)
  next
    case notVar: False
    show ?thesis
    proof (cases "truthy (lineParentId r)")
      case False
      with notTop notVar show ?thesis
        by (simp add: applyRecord_def lineKey_def isTopLevel_def isVariantLine_def
            isImageLine_def isCollectionLine_def Let_def)
    next
      case True
      then obtain k where k: "lineParentId r = Some k" by (cases "lineParentId r") auto
      from True notVar have pu: "linePrice r = PriceUndefined" by (simp add: isVariantLine_def)
      from True notTop notVar pu k show ?thesis
        by (simp add: applyRecord_def lineKey_def applyToAccumulator_def imagesOfLine_def
            variantsOfLine_def collectionsOfLine_def isTopLevel_def isVariantLine_def
            isImageLine_def isCollectionLine_def Let_def getOrCreate_mapSet mapSet_mapSet)
    qed
  qed
qed


lemma getOrCreate_applyRecord:
  "getOrCreate (applyRecord r m) p =
     (if lineKey r = Some p then applyToAccumulator r (getOrCreate m p) else getOrCreate m p)"
  by (cases "lineKey r")
     (auto simp: applyRecord_factored getOrCreate_mapSet getOrCreate_mapSet_other)

lemma keys_applyRecord:
  "set (map fst (applyRecord r m)) = set (map fst m) \<union> {k. lineKey r = Some k}"
  by (cases "lineKey r") (auto simp: applyRecord_factored keys_mapSet)

lemma distinct_applyRecord:
  "distinct (map fst m) \<Longrightarrow> distinct (map fst (applyRecord r m))"
  by (cases "lineKey r") (simp_all add: applyRecord_factored distinct_mapSet)

text \<open>The whole loop: a fold of the loop body over the parsed records.\<close>

lemma parseLines_fold:
  "parseLines ls m =
     (if Malformed \<in> set ls then Inl (Error ''Unexpected token in JSON'')
      else Inr (foldl (\<lambda>m r. applyRecord r m) m (recordsOf ls)))"
proof (induction ls arbitrary: m)
  case Nil
  then show ?case by simp
next
  case (Cons l ls)
  then show ?case by (cases l) simp_all
qed

lemma fold_keys:
  "set (map fst (foldl (\<lambda>m r. applyRecord r m) m rs))
     = set (map fst m) \<union> {k. \<exists>r \<in> set rs. lineKey r = Some k}"
proof (induction rs arbitrary: m)
  case Nil
  then show ?case by simp
next
  case (Cons r rs)
  show ?case
    unfolding foldl_Cons Cons.IH keys_applyRecord by auto
qed

lemma fold_distinct:
  "distinct (map fst m) \<Longrightarrow> distinct (map fst (foldl (\<lambda>m r. applyRecord r m) m rs))"
  by (induction rs arbitrary: m) (simp_all add: distinct_applyRecord)

lemma fold_getOrCreate:
  "getOrCreate (foldl (\<lambda>m r. applyRecord r m) m rs) p =
     foldl (\<lambda>a r. applyToAccumulator r a) (getOrCreate m p) (filter (\<lambda>r. lineKey r = Some p) rs)"
  by (induction rs arbitrary: m) (simp_all add: getOrCreate_applyRecord)

text \<open>What the lines of one product add up to.\<close>

lemma topLevel_no_children:
  "isTopLevel r \<Longrightarrow> variantsOfLine r = [] \<and> collectionsOfLine r = []"
  by (simp add: isTopLevel_def variantsOfLine_def collectionsOfLine_def isVariantLine_def
      isCollectionLine_def)

lemma applyToAccumulator_fields:
  "accId (applyToAccumulator r a) = accId a"
  "accVariants (applyToAccumulator r a) = accVariants a @ variantsOfLine r"
  "accImageUrls (applyToAccumulator r a) = accImageUrls a @ imagesOfLine r"
  "accCollections (applyToAccumulator r a) = accCollections a @ collectionsOfLine r"
  using topLevel_no_children [of r] by (auto simp: applyToAccumulator_def)

lemma accumulate_fields:
  "accId (foldl (\<lambda>a r. applyToAccumulator r a) a rs) = accId a"
  "accVariants (foldl (\<lambda>a r. applyToAccumulator r a) a rs) = accVariants a @ concat (map variantsOfLine rs)"
  "accImageUrls (foldl (\<lambda>a r. applyToAccumulator r a) a rs) = accImageUrls a @ concat (map imagesOfLine rs)"
  "accCollections (foldl (\<lambda>a r. applyToAccumulator r a) a rs)
     = accCollections a @ concat (map collectionsOfLine rs)"
  by (induction rs arbitrary: a) (simp_all add: applyToAccumulator_fields)

lemma applyToAccumulator_scalars:
  "scalarFields (applyToAccumulator r a) = (if isTopLevel r then lineScalars r else scalarFields a)"
  by (simp add: applyToAccumulator_def scalarFields_def lineScalars_def)

lemma accumulate_scalars:
  "scalarFields (foldl (\<lambda>a r. applyToAccumulator r a) a rs) =
     (if filter isTopLevel rs = [] then scalarFields a
      else lineScalars (last (filter isTopLevel rs)))"
proof (induction rs rule: rev_induct)
  case Nil
  then show ?case by simp
next
  case (snoc r rs)
  then show ?case
    by (simp add: applyToAccumulator_scalars)
qed

text \<open>The accumulators of a result, one per key, each the sum of its lines.\<close>

lemma parseBulkLines_result:
  assumes "parseBulkLines ls = Inr accs"
  shows "Malformed \<notin> set ls"
    and "distinct (map accId accs)"
    and "set (map accId accs) = {k. \<exists>r \<in> set (recordsOf ls). lineKey r = Some k}"
    and "\<forall>a \<in> set accs. a = foldl (\<lambda>a r. applyToAccumulator r a) (emptyAccumulator (accId a))
           (filter (\<lambda>r. lineKey r = Some (accId a)) (recordsOf ls))"
proof -
  let ?m = "foldl (\<lambda>m r. applyRecord r m) [] (recordsOf ls)"
  from assms show nm: "Malformed \<notin> set ls"
    by (auto simp: parseBulkLines_def parseLines_fold split: if_splits)
  with assms have accs: "accs = map snd ?m"
    by (auto simp: parseBulkLines_def parseLines_fold)
  have d: "distinct (map fst ?m)" by (rule fold_distinct) simp
  have each: "a = foldl (\<lambda>a r. applyToAccumulator r a) (emptyAccumulator k)
           (filter (\<lambda>r. lineKey r = Some k) (recordsOf ls)) \<and> accId a = k"
    if "(k, a) \<in> set ?m" for k a
  proof -
    from that d have "map_of ?m k = Some a" by simp
    then have "getOrCreate ?m k = a" by (simp add: getOrCreate_def)
    then have "foldl (\<lambda>a r. applyToAccumulator r a) (getOrCreate [] k)
           (filter (\<lambda>r. lineKey r = Some k) (recordsOf ls)) = a"
      unfolding fold_getOrCreate .
    then have "a = foldl (\<lambda>a r. applyToAccumulator r a) (emptyAccumulator k)
           (filter (\<lambda>r. lineKey r = Some k) (recordsOf ls))"
      by (simp add: getOrCreate_def)
    moreover from this have "accId a = k"
      using accumulate_fields(1) [of "emptyAccumulator k"] by (simp add: emptyAccumulator_def)
    ultimately show ?thesis by simp
  qed
  have ids: "map accId accs = map fst ?m"
    unfolding accs using each by (auto simp: comp_def)
  from d ids show "distinct (map accId accs)" by simp
  from ids show "set (map accId accs) = {k. \<exists>r \<in> set (recordsOf ls). lineKey r = Some k}"
    using fold_keys [of "[]" "recordsOf ls"] by simp
  show "\<forall>a \<in> set accs. a = foldl (\<lambda>a r. applyToAccumulator r a) (emptyAccumulator (accId a))
           (filter (\<lambda>r. lineKey r = Some (accId a)) (recordsOf ls))"
  proof
    fix a assume "a \<in> set accs"
    with accs obtain k where "(k, a) \<in> set ?m" by auto
    from each [OF this] have k: "accId a = k"
      and a: "a = foldl (\<lambda>a r. applyToAccumulator r a) (emptyAccumulator k)
           (filter (\<lambda>r. lineKey r = Some k) (recordsOf ls))" by blast+
    from a show "a = foldl (\<lambda>a r. applyToAccumulator r a) (emptyAccumulator (accId a))
           (filter (\<lambda>r. lineKey r = Some (accId a)) (recordsOf ls))"
      unfolding k .
  qed
qed

lemma parseBulkLines_total:
  "Malformed \<notin> set ls \<Longrightarrow> \<exists>accs. parseBulkLines ls = Inr accs"
  by (simp add: parseBulkLines_def parseLines_fold)

text \<open>Another arrival order: the same lines, as a multiset.\<close>

lemma recordsOf_filter: "recordsOf ls = map (\<lambda>l. case l of Json r \<Rightarrow> r) (filter (\<lambda>l. \<exists>r. l = Json r) ls)"
proof (induction ls)
  case Nil
  then show ?case by simp
next
  case (Cons l ls)
  then show ?case by (cases l) simp_all
qed

lemma recordsOf_mset: "mset ls' = mset ls \<Longrightarrow> mset (recordsOf ls') = mset (recordsOf ls)"
  by (simp add: recordsOf_filter)

lemma concat_map_mset:
  "mset xs' = mset xs \<Longrightarrow> mset (concat (map f xs')) = mset (concat (map f xs))"
proof -
  assume "mset xs' = mset xs"
  then have "mset (map (\<lambda>x. mset (f x)) xs') = mset (map (\<lambda>x. mset (f x)) xs)" by simp
  then have "sum_list (map (\<lambda>x. mset (f x)) xs') = sum_list (map (\<lambda>x. mset (f x)) xs)"
    by (metis sum_mset_sum_list)
  then show ?thesis by (simp add: mset_concat comp_def)
qed

lemma single_last:
  assumes "mset xs' = mset xs" "length xs \<le> 1"
  shows "xs' = xs"
proof (cases xs)
  case Nil
  with assms show ?thesis by simp
next
  case (Cons x rest)
  with assms have "xs = [x]" by simp
  with assms show ?thesis by (metis mset_single_iff_right mset.simps(1) mset.simps(2) add_mset_eq_single mset_zero_iff
        list.exhaust)
qed


lemma recordsOf_set: "r \<in> set (recordsOf ls) \<longleftrightarrow> Json r \<in> set ls"
proof (induction ls)
  case Nil
  then show ?case by simp
next
  case (Cons l ls)
  then show ?case by (cases l) auto
qed

lemma child_key:
  "isVariantLine r \<or> isImageLine r \<or> isCollectionLine r \<Longrightarrow> lineKey r = lineParentId r \<and> truthy (lineParentId r)"
  by (auto simp: lineKey_def isTopLevel_def isVariantLine_def isImageLine_def isCollectionLine_def)

lemma topLevel_of_key:
  "filter isTopLevel (filter (\<lambda>r. lineKey r = Some k) rs) = filter (\<lambda>r. isTopLevel r \<and> lineId r = Some k) rs"
  by (induction rs) (auto simp: lineKey_def)

text \<open>
  C6 (amended). For a result stream that \<open>parseBulkResults\<close> reads to the end, and any
  other arrival order of the same lines: there is at most one accumulator per product id;
  every line the loop takes for a variant, an image or a collection is attached to the
  accumulator of its \<open>__parentId\<close>, wherever the parent's own line stands; the variants,
  image URLs and collections of an accumulator are those of its lines in arrival order;
  and the other order gives accumulators for the same product ids, each with the same
  variants, image URLs and collections up to their order, and with the same title, handle,
  vendor, type, status, dates and featured image when the product has at most one
  top-level line.
\<close>

theorem parseBulkResults_upsert:
  assumes "mset ls' = mset ls" and "parseBulkLines ls = Inr accs"
  shows "distinct (map accId accs)
    \<and> (\<forall>r. Json r \<in> set ls \<and> (isVariantLine r \<or> isImageLine r \<or> isCollectionLine r) \<longrightarrow>
          (\<exists>a \<in> set accs. lineParentId r = Some (accId a)
              \<and> set (variantsOfLine r) \<subseteq> set (accVariants a)
              \<and> set (imagesOfLine r) \<subseteq> set (accImageUrls a)
              \<and> set (collectionsOfLine r) \<subseteq> set (accCollections a)))
    \<and> (\<forall>a \<in> set accs.
          accVariants a = concat (map variantsOfLine (filter (\<lambda>r. lineKey r = Some (accId a)) (recordsOf ls)))
          \<and> accImageUrls a = concat (map imagesOfLine (filter (\<lambda>r. lineKey r = Some (accId a)) (recordsOf ls)))
          \<and> accCollections a = concat (map collectionsOfLine (filter (\<lambda>r. lineKey r = Some (accId a)) (recordsOf ls))))
    \<and> (\<exists>accs'. parseBulkLines ls' = Inr accs' \<and> distinct (map accId accs')
          \<and> set (map accId accs') = set (map accId accs)
          \<and> (\<forall>a \<in> set accs. \<forall>a' \<in> set accs'. accId a' = accId a \<longrightarrow>
                mset (accVariants a') = mset (accVariants a)
                \<and> mset (accImageUrls a') = mset (accImageUrls a)
                \<and> mset (accCollections a') = mset (accCollections a)
                \<and> (length (topLevelLinesOf (accId a) ls) \<le> 1 \<longrightarrow> scalarFields a' = scalarFields a)))"
proof -
  let ?G = "\<lambda>a r. applyToAccumulator r a"
  let ?of = "\<lambda>k ls. filter (\<lambda>r. lineKey r = Some k) (recordsOf ls)"
  note res = parseBulkLines_result [OF assms(2)]
  have fields: "accVariants a = concat (map variantsOfLine (?of (accId a) ls))
      \<and> accImageUrls a = concat (map imagesOfLine (?of (accId a) ls))
      \<and> accCollections a = concat (map collectionsOfLine (?of (accId a) ls))
      \<and> scalarFields a = (if topLevelLinesOf (accId a) ls = [] then scalarFields (emptyAccumulator (accId a))
                          else lineScalars (last (topLevelLinesOf (accId a) ls)))"
    if "a \<in> set accs" "parseBulkLines ls = Inr accs" for a accs ls
  proof -
    from parseBulkLines_result(4) [OF that(2)] that(1)
    have a: "a = foldl ?G (emptyAccumulator (accId a)) (?of (accId a) ls)" by blast
    have "accVariants a = concat (map variantsOfLine (?of (accId a) ls))"
      by (subst a) (simp add: accumulate_fields emptyAccumulator_def)
    moreover have "accImageUrls a = concat (map imagesOfLine (?of (accId a) ls))"
      by (subst a) (simp add: accumulate_fields emptyAccumulator_def)
    moreover have "accCollections a = concat (map collectionsOfLine (?of (accId a) ls))"
      by (subst a) (simp add: accumulate_fields emptyAccumulator_def)
    moreover have "scalarFields a = (if topLevelLinesOf (accId a) ls = [] then scalarFields (emptyAccumulator (accId a))
                          else lineScalars (last (topLevelLinesOf (accId a) ls)))"
      by (subst a) (unfold accumulate_scalars topLevel_of_key topLevelLinesOf_def, rule refl)
    ultimately show ?thesis by blast
  qed
  have one: "distinct (map accId accs)" by (rule res(2))
  have children: "\<exists>a \<in> set accs. lineParentId r = Some (accId a)
              \<and> set (variantsOfLine r) \<subseteq> set (accVariants a)
              \<and> set (imagesOfLine r) \<subseteq> set (accImageUrls a)
              \<and> set (collectionsOfLine r) \<subseteq> set (accCollections a)"
    if "Json r \<in> set ls" and "isVariantLine r \<or> isImageLine r \<or> isCollectionLine r" for r
  proof -
    from child_key [OF that(2)] obtain k where k: "lineParentId r = Some k" "lineKey r = Some k"
      by (cases "lineParentId r") auto
    from that(1) have r: "r \<in> set (recordsOf ls)" by (simp add: recordsOf_set)
    with k res(3) have "k \<in> set (map accId accs)" by auto
    then obtain a where a: "a \<in> set accs" "accId a = k" by auto
    from r k a have "r \<in> set (?of (accId a) ls)" by simp
    with fields [OF a(1) assms(2)] a k show ?thesis by (intro bexI [of _ a]) auto
  qed
  from res(1) assms(1) have "Malformed \<notin> set ls'" by (metis mset_eq_setD)
  then obtain accs' where accs': "parseBulkLines ls' = Inr accs'"
    using parseBulkLines_total by blast
  note res' = parseBulkLines_result [OF accs']
  from assms(1) have recs: "mset (recordsOf ls') = mset (recordsOf ls)" by (rule recordsOf_mset)
  then have per: "mset (?of k ls') = mset (?of k ls)" for k by simp
  from recs have "set (recordsOf ls') = set (recordsOf ls)" by (rule mset_eq_setD)
  with res(3) res'(3) have ids: "set (map accId accs') = set (map accId accs)" by simp
  have same: "mset (accVariants a') = mset (accVariants a)
                \<and> mset (accImageUrls a') = mset (accImageUrls a)
                \<and> mset (accCollections a') = mset (accCollections a)
                \<and> (length (topLevelLinesOf (accId a) ls) \<le> 1 \<longrightarrow> scalarFields a' = scalarFields a)"
    if "a \<in> set accs" "a' \<in> set accs'" "accId a' = accId a" for a a'
  proof -
    note f = fields [OF that(1) assms(2)] and f' = fields [OF that(2) accs', unfolded that(3)]
    from recs have t: "mset (topLevelLinesOf (accId a) ls') = mset (topLevelLinesOf (accId a) ls)"
      by (simp add: topLevelLinesOf_def)
    have "scalarFields a' = scalarFields a" if "length (topLevelLinesOf (accId a) ls) \<le> 1"
    proof -
      from single_last [OF t that] have "topLevelLinesOf (accId a) ls' = topLevelLinesOf (accId a) ls" .
      with f f' show ?thesis by simp
    qed
    then have sc: "length (topLevelLinesOf (accId a) ls) \<le> 1 \<longrightarrow> scalarFields a' = scalarFields a"
      by blast
    from f f' concat_map_mset [OF per [of "accId a"], of variantsOfLine]
    have v: "mset (accVariants a') = mset (accVariants a)" by simp
    from f f' concat_map_mset [OF per [of "accId a"], of imagesOfLine]
    have i: "mset (accImageUrls a') = mset (accImageUrls a)" by simp
    from f f' concat_map_mset [OF per [of "accId a"], of collectionsOfLine]
    have c: "mset (accCollections a') = mset (accCollections a)" by simp
    from v i c sc show ?thesis by blast
  qed
  from one children fields [OF _ assms(2)] accs' res'(2) ids same show ?thesis
    by (intro conjI allI impI ballI exI [of _ accs']) blast+
qed

text \<open>The sample lines, read in two orders.\<close>

lemma sample_lines_parsed:
  "parseBulkLines [smallLine, productLine, imageLine, largeLine]
     = Inr [mugWith [smallVariant, largeVariant] [''https://cdn.example/mug-2.png'']]"
  "parseBulkLines [largeLine, imageLine, smallLine, productLine]
     = Inr [mugWith [largeVariant, smallVariant] [''https://cdn.example/mug-2.png'']]"
  by (simp_all add: parseBulkLines_def applyRecord_def smallLine_def productLine_def imageLine_def
      largeLine_def sampleLine_def mugWith_def smallVariant_def largeVariant_def getOrCreate_def
      emptyAccumulator_def Let_def)

theorem parseBulkResults_upsert_witness:
  "mset [largeLine, imageLine, smallLine, productLine] = mset [smallLine, productLine, imageLine, largeLine]
   \<and> parseBulkLines [smallLine, productLine, imageLine, largeLine]
       = Inr [mugWith [smallVariant, largeVariant] [''https://cdn.example/mug-2.png'']]
   \<and> (\<exists>accs'. parseBulkLines [largeLine, imageLine, smallLine, productLine] = Inr accs'
         \<and> distinct (map accId accs')
         \<and> set (map accId accs') = {''gid://shopify/Product/1''})"
proof -
  have m: "mset [largeLine, imageLine, smallLine, productLine] = mset [smallLine, productLine, imageLine, largeLine]"
    by simp
  from parseBulkResults_upsert [OF m sample_lines_parsed(1)]
  obtain accs' where "parseBulkLines [largeLine, imageLine, smallLine, productLine] = Inr accs'"
    "distinct (map accId accs')"
    "set (map accId accs') = set (map accId [mugWith [smallVariant, largeVariant] [''https://cdn.example/mug-2.png'']])"
    by blast
  with m sample_lines_parsed(1) show ?thesis by (auto simp: mugWith_def)
qed

text \<open>
  C6 as stated asks for the same set of accumulators in every arrival order. Two variant
  lines of one product, read in the two orders, give accumulators whose variant lists
  differ in order (and so in the default variant).
\<close>

theorem parseBulkResults_order_counterexample:
  "mset [largeLine, imageLine, smallLine, productLine] = mset [smallLine, productLine, imageLine, largeLine]
   \<and> parseBulkLines [smallLine, productLine, imageLine, largeLine]
       = Inr [mugWith [smallVariant, largeVariant] [''https://cdn.example/mug-2.png'']]
   \<and> parseBulkLines [largeLine, imageLine, smallLine, productLine]
       = Inr [mugWith [largeVariant, smallVariant] [''https://cdn.example/mug-2.png'']]
   \<and> set [mugWith [smallVariant, largeVariant] [''https://cdn.example/mug-2.png'']]
       \<noteq> set [mugWith [largeVariant, smallVariant] [''https://cdn.example/mug-2.png'']]"
  by (simp add: sample_lines_parsed) (simp add: mugWith_def smallVariant_def largeVariant_def)

subsection \<open>Runs of the orchestrator\<close>

lemmas io_defs = bindIO_def catchIO_def returnIO_def throwIO_def withClock_def guarded_def called_def
  jobFindUnique_def jobUpdateIO_def jobIssueCreate_def jobFileCreate_def storageWrite_def
  storageRead_def clientQuery_def fetchUrl_def

subsection \<open>Rules\<close>

lemma hoare_return: "(\<And>w. P w \<Longrightarrow> Q a w) \<Longrightarrow> hoare P (returnIO a) Q E"
  by (simp add: hoare_def returnIO_def)

lemma hoare_throw: "(\<And>w. P w \<Longrightarrow> E w) \<Longrightarrow> hoare P (throwIO e) Q E"
  by (simp add: hoare_def throwIO_def)

lemma hoare_bind:
  assumes "hoare P m R E" and "\<And>a. hoare (R a) (f a) Q E"
  shows "hoare P (bindIO m f) Q E"
  unfolding hoare_def bindIO_def
proof (intro allI impI)
  fix w assume "P w"
  with assms(1) have m: "case m w of Returns a w' \<Rightarrow> R a w' | Throws e w' \<Rightarrow> E w' | OutOfFuel w' \<Rightarrow> E w'"
    by (simp add: hoare_def)
  show "case (case m w of Returns a w' \<Rightarrow> f a w' | Throws e w' \<Rightarrow> Throws e w'
              | OutOfFuel w' \<Rightarrow> OutOfFuel w') of
          Returns a w' \<Rightarrow> Q a w' | Throws e w' \<Rightarrow> E w' | OutOfFuel w' \<Rightarrow> E w'"
  proof (cases "m w")
    case (Returns a w')
    with m have "R a w'" by simp
    with assms(2) [of a] Returns show ?thesis by (simp add: hoare_def)
  next
    case (Throws e w')
    with m show ?thesis by simp
  next
    case (OutOfFuel w')
    with m show ?thesis by simp
  qed
qed

lemma hoare_catch:
  assumes "hoare P m Q E'" and "\<And>e. hoare E' (h e) Q E" and "\<And>w. E' w \<Longrightarrow> E w"
  shows "hoare P (catchIO m h) Q E"
  unfolding hoare_def catchIO_def
proof (intro allI impI)
  fix w assume "P w"
  with assms(1) have m: "case m w of Returns a w' \<Rightarrow> Q a w' | Throws e w' \<Rightarrow> E' w' | OutOfFuel w' \<Rightarrow> E' w'"
    by (simp add: hoare_def)
  show "case (case m w of Returns a w' \<Rightarrow> Returns a w' | Throws e w' \<Rightarrow> h e w'
              | OutOfFuel w' \<Rightarrow> OutOfFuel w') of
          Returns a w' \<Rightarrow> Q a w' | Throws e w' \<Rightarrow> E w' | OutOfFuel w' \<Rightarrow> E w'"
  proof (cases "m w")
    case (Returns a w')
    with m show ?thesis by simp
  next
    case (Throws e w')
    with m have "E' w'" by simp
    with assms(2) [of e] Throws show ?thesis by (simp add: hoare_def)
  next
    case (OutOfFuel w')
    with m assms(3) show ?thesis by simp
  qed
qed

lemma hoare_withClock: "(\<And>t. hoare P (f t) Q E) \<Longrightarrow> hoare P (withClock f) Q E"
  by (simp add: hoare_def withClock_def)

lemma hoare_weaken:
  assumes "hoare P' m Q' E'" and "\<And>w. P w \<Longrightarrow> P' w" and "\<And>a w. Q' a w \<Longrightarrow> Q a w"
    and "\<And>w. E' w \<Longrightarrow> E w"
  shows "hoare P m Q E"
  unfolding hoare_def
proof (intro allI impI)
  fix w assume "P w"
  with assms(1,2) have "case m w of Returns a w' \<Rightarrow> Q' a w' | Throws e w' \<Rightarrow> E' w' | OutOfFuel w' \<Rightarrow> E' w'"
    by (simp add: hoare_def)
  with assms(3,4) show "case m w of Returns a w' \<Rightarrow> Q a w' | Throws e w' \<Rightarrow> E w' | OutOfFuel w' \<Rightarrow> E w'"
    by (cases "m w") simp_all
qed

lemma hoare_any: "hoare P m (\<lambda>a w. True) (\<lambda>w. True)"
  by (simp add: hoare_def split: outcome.splits)

lemma hoare_outcome:
  "hoare P m Q E \<Longrightarrow> P w \<Longrightarrow> m w = Returns a w' \<Longrightarrow> Q a w'"
  by (auto simp: hoare_def)

lemma hoare_world:
  "hoare P m (\<lambda>a. E) E \<Longrightarrow> P w \<Longrightarrow> E (worldOf (m w))"
  by (cases "m w") (auto simp: hoare_def)

subsection \<open>Quiet computations\<close>

lemma quiet_return: "quiet (returnIO a)"
  by (simp add: quiet_def returnIO_def)

lemma quiet_throw: "quiet (throwIO e)"
  by (simp add: quiet_def throwIO_def)

lemma quiet_bind: "quiet m \<Longrightarrow> (\<And>a. quiet (f a)) \<Longrightarrow> quiet (bindIO m f)"
  unfolding quiet_def bindIO_def
proof
  fix w
  assume m: "\<forall>w. marks (worldOf (m w)) = marks w" and f: "\<And>a. \<forall>w. marks (worldOf (f a w)) = marks w"
  show "marks (worldOf (case m w of Returns a w' \<Rightarrow> f a w' | Throws e w' \<Rightarrow> Throws e w'
                        | OutOfFuel w' \<Rightarrow> OutOfFuel w')) = marks w"
  proof (cases "m w")
    case (Returns a w')
    with m [rule_format, of w] f [of a, rule_format, of w'] show ?thesis by simp
  next
    case (Throws e w')
    with m [rule_format, of w] show ?thesis by simp
  next
    case (OutOfFuel w')
    with m [rule_format, of w] show ?thesis by simp
  qed
qed

lemma quiet_catch: "quiet m \<Longrightarrow> (\<And>e. quiet (h e)) \<Longrightarrow> quiet (catchIO m h)"
  unfolding quiet_def catchIO_def
proof
  fix w
  assume m: "\<forall>w. marks (worldOf (m w)) = marks w" and h: "\<And>e. \<forall>w. marks (worldOf (h e w)) = marks w"
  show "marks (worldOf (case m w of Returns a w' \<Rightarrow> Returns a w' | Throws e w' \<Rightarrow> h e w'
                        | OutOfFuel w' \<Rightarrow> OutOfFuel w')) = marks w"
  proof (cases "m w")
    case (Returns a w')
    with m [rule_format, of w] show ?thesis by simp
  next
    case (Throws e w')
    with m [rule_format, of w] h [of e, rule_format, of w'] show ?thesis by simp
  next
    case (OutOfFuel w')
    with m [rule_format, of w] show ?thesis by simp
  qed
qed

lemma quiet_withClock: "(\<And>t. quiet (f t)) \<Longrightarrow> quiet (withClock f)"
  by (simp add: quiet_def withClock_def)

lemma marks_called: "marks (called ev w) = marks w"
  by (simp add: marks_def called_def)

lemma quiet_guarded: "quiet m \<Longrightarrow> quiet (guarded ev m)"
  by (auto simp: quiet_def guarded_def marks_called split: option.splits)

lemma quiet_jobFindUnique: "quiet (jobFindUnique ev ident)"
  unfolding jobFindUnique_def by (rule quiet_guarded) (simp add: quiet_def)

lemma quiet_jobIssueCreate: "quiet (jobIssueCreate ev issue)"
  unfolding jobIssueCreate_def by (rule quiet_guarded) (simp add: quiet_def marks_def)

lemma quiet_jobFileCreate: "quiet (jobFileCreate ev file)"
  unfolding jobFileCreate_def by (rule quiet_guarded) (simp add: quiet_def marks_def)

lemma quiet_storageWrite: "quiet (storageWrite ev path bs)"
  unfolding storageWrite_def by (rule quiet_guarded) (simp add: quiet_def marks_def)

lemma quiet_storageRead: "quiet (storageRead ev path)"
  unfolding storageRead_def by (rule quiet_guarded) (simp add: quiet_def split: option.splits)

lemma quiet_clientQuery: "quiet (clientQuery ev client req)"
  by (simp add: quiet_def clientQuery_def Let_def marks_def called_def split: sum.splits)

lemma quiet_fetchUrl: "quiet (fetchUrl ev url)"
  by (simp add: quiet_def fetchUrl_def marks_called)

lemma marks_jobUpdateIO:
  "marks (worldOf (jobUpdateIO ev ident u w)) =
     (case jobUpdateIO ev ident u w of Returns a w' \<Rightarrow> marks w @ marksOf u | _ \<Rightarrow> marks w)"
  by (simp add: jobUpdateIO_def guarded_def marks_def called_def split: option.splits)

lemma quiet_jobUpdateIO: "marksOf u = [] \<Longrightarrow> quiet (jobUpdateIO ev ident u)"
  by (simp add: quiet_def marks_jobUpdateIO split: outcome.splits)


subsection \<open>The stages other than the checkpoints are quiet\<close>

lemma quiet_startBulkOperation: "quiet (startBulkOperation ev client q)"
  unfolding startBulkOperation_def
  by (rule quiet_bind [OF quiet_clientQuery])
     (simp add: quiet_throw quiet_return split: option.splits)

lemma quiet_waitLoop: "quiet (waitLoop ev client bulkId started)"
  unfolding quiet_def
proof
  fix w
  show "marks (worldOf (waitLoop ev client bulkId started w)) = marks w"
  proof (induction ev client bulkId started w rule: waitLoop.induct)
    case (1 ev client bulkId started w)
    show ?case
    proof (cases "clientQuery ev client (PollBulkOperation bulkId) w")
      case (Returns body w')
      from Returns quiet_clientQuery [of ev client "PollBulkOperation bulkId"]
      have q: "marks w' = marks w" by (auto simp: quiet_def dest: spec [of _ w])
      show ?thesis
      proof (cases "bodyNode body")
        case None
        with Returns q show ?thesis by (simp add: waitLoop.simps)
      next
        case (Some node)
        show ?thesis
        proof (cases "bulkMaxWaitMs < clock w - started
            \<or> (nodeStatus node = ''COMPLETED'' \<and> truthy (nodeUrl node))
            \<or> nodeStatus node = ''FAILED'' \<or> nodeStatus node = ''CANCELED''")
          case True
          with Returns Some q show ?thesis by (auto simp: waitLoop.simps)
        next
          case False
          with "1.IH" [OF _ Returns Some] have
            "marks (worldOf (waitLoop ev client bulkId started (w'\<lparr>clock := clock w' + bulkPollIntervalMs\<rparr>)))
               = marks (w'\<lparr>clock := clock w' + bulkPollIntervalMs\<rparr>)" by simp
          with False Returns Some q show ?thesis
            by (subst waitLoop.simps) (simp add: marks_def)
        qed
      qed
    next
      case (Throws e w')
      from Throws quiet_clientQuery [of ev client "PollBulkOperation bulkId"]
      have "marks w' = marks w" by (auto simp: quiet_def dest: spec [of _ w])
      with Throws show ?thesis by (simp add: waitLoop.simps)
    next
      case (OutOfFuel w')
      from OutOfFuel quiet_clientQuery [of ev client "PollBulkOperation bulkId"]
      have "marks w' = marks w" by (auto simp: quiet_def dest: spec [of _ w])
      with OutOfFuel show ?thesis by (simp add: waitLoop.simps)
    qed
  qed
qed

lemma quiet_waitForBulkResult: "quiet (waitForBulkResult ev client bulkId)"
  unfolding waitForBulkResult_def by (rule quiet_withClock) (rule quiet_waitLoop)

lemma quiet_parseBulkResults: "quiet (parseBulkResults ev url)"
  unfolding parseBulkResults_def
  by (rule quiet_bind [OF quiet_fetchUrl])
     (simp add: quiet_throw quiet_return split: httpResult.splits sum.splits)

lemma quiet_bulkExtract: "quiet (bulkExtract ev client q)"
  unfolding bulkExtract_def
  by (intro quiet_bind quiet_startBulkOperation quiet_waitForBulkResult quiet_parseBulkResults)

lemma quiet_paginate: "quiet (paginate fuel ev client scopeQuery withCollections cursor products)"
  unfolding quiet_def
proof
  fix w
  show "marks (worldOf (paginate fuel ev client scopeQuery withCollections cursor products w)) = marks w"
  proof (induction fuel arbitrary: cursor products w)
    case 0
    then show ?case by simp
  next
    case (Suc fuel)
    have q: "marks (worldOf (clientQuery ev client (ProductsPage scopeQuery withCollections cursor) w)) = marks w"
      using quiet_clientQuery by (simp add: quiet_def)
    show ?case
    proof (cases "clientQuery ev client (ProductsPage scopeQuery withCollections cursor) w")
      case (Returns body w')
      with q have "marks w' = marks w" by simp
      with Returns Suc.IH show ?thesis by (simp add: Let_def split: option.splits)
    next
      case (Throws e w')
      with q show ?thesis by simp
    next
      case (OutOfFuel w')
      with q show ?thesis by simp
    qed
  qed
qed

lemma quiet_fetchProductsPaginated: "quiet (fetchProductsPaginated fuel ev client settings)"
  unfolding fetchProductsPaginated_def by (rule quiet_paginate)

lemma marksOf_fallbackStep: "marksOf fallbackStep = []"
  by (simp add: marksOf_def fallbackStep_def noUpdate_def)

lemma quiet_extractProducts: "quiet (extractProducts fuel ev client ident settings)"
  unfolding extractProducts_def
  by (intro quiet_catch quiet_bind quiet_bulkExtract quiet_fetchProductsPaginated
      quiet_jobUpdateIO marksOf_fallbackStep)

lemma quiet_workerStep: "quiet (workerStep ev ident k t p)"
proof (cases t)
  case (Fetching i r retries)
  then show ?thesis by (simp add: quiet_bind quiet_fetchUrl quiet_return)
next
  case (CreatingIssue issue)
  then show ?thesis by (simp add: quiet_bind quiet_jobIssueCreate quiet_return)
next
  case (StoringCover i r' path bs)
  then show ?thesis by (simp add: quiet_bind quiet_storageWrite quiet_return)
next
  case (ReadingCounts delta)
  then show ?thesis by (simp add: quiet_bind quiet_jobFindUnique quiet_return)
next
  case (WritingCounts c)
  have "marksOf (noUpdate\<lparr> setCountsJson := Some c \<rparr>) = []"
    by (simp add: marksOf_def noUpdate_def)
  with WritingCounts show ?thesis by (simp add: quiet_bind quiet_jobUpdateIO quiet_return)
qed

lemma quiet_runWorkers: "quiet (runWorkers ev ident p)"
  unfolding quiet_def
proof
  fix w
  show "marks (worldOf (runWorkers ev ident p w)) = marks w"
  proof (induction ev ident p w rule: runWorkers.induct)
    case (1 ev ident p w)
    let ?k = "schedule ev (tick w) mod length (poolTasks p)"
    have q: "marks (worldOf (workerStep ev ident ?k (poolTasks p ! ?k) p w)) = marks w"
      using quiet_workerStep by (simp add: quiet_def)
    show ?case
    proof (cases "poolTasks p = []")
      case True
      then show ?thesis by (subst runWorkers.simps) simp
    next
      case False
      show ?thesis
      proof (cases "workerStep ev ident ?k (poolTasks p ! ?k) p w")
        case (Returns p' w')
        from "1.IH" [OF False Returns] q Returns False show ?thesis
          by (subst runWorkers.simps) simp
      next
        case (Throws e w')
        with q False show ?thesis by (subst runWorkers.simps) simp
      next
        case (OutOfFuel w')
        with q False show ?thesis by (subst runWorkers.simps) simp
      qed
    qed
  qed
qed

lemma quiet_downloadCovers: "quiet (downloadCovers ev ident records)"
  unfolding downloadCovers_def
  by (intro quiet_bind quiet_jobUpdateIO quiet_runWorkers) (simp add: marksOf_def noUpdate_def)

lemma quiet_buildPdf: "quiet (buildPdf ev ident records settings)"
  unfolding quiet_def
proof
  fix w
  have "quiet (bindIO (storageWrite ev path bs) (\<lambda>_. returnIO (path, length bs)))" for path bs
    by (intro quiet_bind quiet_storageWrite quiet_return)
  then show "marks (worldOf (buildPdf ev ident records settings w)) = marks w"
    by (simp add: buildPdf_def Let_def quiet_def split: sum.splits)
qed

lemma quiet_zipEntry: "quiet (zipEntry ev settings r)"
  unfolding zipEntry_def
  by (auto intro!: quiet_catch quiet_bind quiet_storageRead quiet_return quiet_throw
      split: sum.splits)

lemma quiet_zipLoop: "quiet (zipLoop ev settings rs)"
  unfolding quiet_def
proof
  fix w
  show "marks (worldOf (zipLoop ev settings rs w)) = marks w"
  proof (induction rs arbitrary: w)
    case Nil
    then show ?case by simp
  next
    case (Cons r rs)
    have q: "marks (worldOf (zipEntry ev settings r w)) = marks w"
      using quiet_zipEntry by (simp add: quiet_def)
    show ?case
    proof (cases "zipEntry ev settings r w")
      case (Returns entry w')
      from Returns q have "marks w' = marks w" by simp
      with Returns Cons.IH [of w'] show ?thesis
        by (cases "zipLoop ev settings rs w'") auto
    next
      case (Throws e w')
      with q show ?thesis by simp
    next
      case (OutOfFuel w')
      with q show ?thesis by simp
    qed
  qed
qed

lemma quiet_buildImagesZip: "quiet (buildImagesZip ev ident records manifestKey settings)"
proof -
  have "quiet (\<lambda>w. bindIO (storageWrite ev path (archive w)) (\<lambda>_. returnIO (path, length (archive w))) w)"
    for path and archive :: "world \<Rightarrow> bytes"
    unfolding quiet_def
  proof
    fix w
    have "quiet (bindIO (storageWrite ev path (archive w)) (\<lambda>_. returnIO (path, length (archive w))))"
      by (intro quiet_bind quiet_storageWrite quiet_return)
    then show "marks (worldOf (bindIO (storageWrite ev path (archive w))
        (\<lambda>_. returnIO (path, length (archive w))) w)) = marks w"
      by (simp add: quiet_def)
  qed
  then show ?thesis
    unfolding buildImagesZip_def Let_def
    by (intro quiet_bind quiet_guarded quiet_return quiet_zipLoop)
qed

subsection \<open>Checkpoints\<close>

lemma quiet_step:
  assumes "quiet m" and "k < 5" and "\<And>a. hoare (reached base k) (f a) Q (stopped base)"
  shows "hoare (reached base k) (bindIO m f) Q (stopped base)"
proof (rule hoare_bind [where R = "\<lambda>a. reached base k"])
  show "hoare (reached base k) m (\<lambda>a. reached base k) (stopped base)"
    unfolding hoare_def
  proof (intro allI impI)
    fix w assume r: "reached base k w"
    from assms(1) have "marks (worldOf (m w)) = marks w" by (simp add: quiet_def)
    with r assms(2)
    show "case m w of Returns a w' \<Rightarrow> reached base k w' | Throws e w' \<Rightarrow> stopped base w'
        | OutOfFuel w' \<Rightarrow> stopped base w'"
      by (cases "m w") (auto simp: reached_def stopped_def)
  qed
next
  fix a show "hoare (reached base k) (f a) Q (stopped base)" by (rule assms(3))
qed

lemma checkpoint_step:
  assumes "marksOf u = [checkpoints False ! k]" and "k < 4"
    and "hoare (reached base (Suc k)) rest Q (stopped base)"
  shows "hoare (reached base k) (bindIO (jobUpdateIO ev ident u) (\<lambda>_. rest)) Q (stopped base)"
proof (rule hoare_bind [where R = "\<lambda>a. reached base (Suc k)"])
  have len: "k < length (checkpoints False)" using assms(2) by (simp add: checkpoints_def)
  show "hoare (reached base k) (jobUpdateIO ev ident u) (\<lambda>a. reached base (Suc k)) (stopped base)"
    unfolding hoare_def
  proof (intro allI impI)
    fix w assume r: "reached base k w"
    from marks_jobUpdateIO [of ev ident u w] r assms(1,2) len
    show "case jobUpdateIO ev ident u w of Returns a w' \<Rightarrow> reached base (Suc k) w'
        | Throws e w' \<Rightarrow> stopped base w' | OutOfFuel w' \<Rightarrow> stopped base w'"
      by (cases "jobUpdateIO ev ident u w")
         (auto simp: reached_def stopped_def take_Suc_conv_app_nth intro!: exI [of _ k])
  qed
next
  fix a show "hoare (reached base (Suc k)) rest Q (stopped base)" by (rule assms(3))
qed

lemma final_step:
  "hoare (reached base 4)
     (bindIO (jobUpdateIO ev ident (finalStep hf now)) (\<lambda>_. returnIO hf))
     (completed base) (stopped base)"
  unfolding hoare_def
proof (intro allI impI)
  fix w assume r: "reached base 4 w"
  have m: "marksOf (finalStep hf now) = [(Some 100, Some ''Completed'', Some (if hf then PARTIAL else COMPLETED))]"
    by (simp add: marksOf_def finalStep_def noUpdate_def)
  have c: "take 4 (checkpoints False) @ [(Some 100, Some ''Completed'', Some (if hf then PARTIAL else COMPLETED))]
      = checkpoints hf"
    by (simp add: checkpoints_def)
  from marks_jobUpdateIO [of ev ident "finalStep hf now" w] r
  show "case bindIO (jobUpdateIO ev ident (finalStep hf now)) (\<lambda>_. returnIO hf) w of
      Returns a w' \<Rightarrow> completed base a w' | Throws e w' \<Rightarrow> stopped base w'
    | OutOfFuel w' \<Rightarrow> stopped base w'"
    unfolding m
    by (cases "jobUpdateIO ev ident (finalStep hf now) w")
       (auto simp: bindIO_def returnIO_def reached_def stopped_def completed_def c [symmetric]
          intro!: exI [of _ 4])
qed

lemma marksOf_steps:
  "marksOf (startStep now) = [checkpoints False ! 0]"
  "marksOf (imagesStep n) = [checkpoints False ! 1]"
  "marksOf pdfStep = [checkpoints False ! 2]"
  "marksOf zipStep = [checkpoints False ! 3]"
  by (simp_all add: marksOf_def startStep_def imagesStep_def pdfStep_def zipStep_def noUpdate_def
      checkpoints_def)

lemma finishJob_marks:
  "hoare (reached base 1) (finishJob ev ident shop settings products) (completed base) (stopped base)"
  unfolding finishJob_def Let_def
  apply (rule checkpoint_step [OF marksOf_steps(2)], simp)
  apply (simp only: One_nat_def [symmetric] Suc_1)
  apply (rule quiet_step [OF quiet_downloadCovers], simp)
  apply (rule hoare_withClock)
  apply (rule quiet_step [OF quiet_storageWrite], simp)
  apply (rule hoare_withClock)
  apply (rule quiet_step [OF quiet_jobFileCreate], simp)
  apply (rule checkpoint_step [OF marksOf_steps(3)], simp)
  apply (simp only: eval_nat_numeral(3) [symmetric] numeral_3_eq_3 [symmetric])
  apply (rule quiet_step [OF quiet_buildPdf], simp)
  apply (rule hoare_withClock)
  apply (rule quiet_step [OF quiet_jobFileCreate], simp)
  apply (rule checkpoint_step [OF marksOf_steps(4)], simp)
  apply (subgoal_tac "Suc 3 = 4")
   prefer 2 apply simp
  apply (simp only:)
  apply (rule quiet_step [OF quiet_buildImagesZip], simp)
  apply (rule hoare_withClock)
  apply (rule quiet_step [OF quiet_jobFileCreate], simp)
  apply (rule hoare_withClock)
  apply (rule final_step)
  done

lemma runCatalogJob_marks:
  "hoare (reached base 0) (runCatalogJob fuel ev ident) (completed base) (stopped base)"
proof -
  have stop0: "\<And>w. reached base 0 w \<Longrightarrow> stopped base w"
    by (auto simp: stopped_def intro!: exI [of _ 0])
  have session: "hoare (reached base 0)
      (case loaded of
         None \<Rightarrow> throwIO (Error (''Missing offline session for '' @ shop))
       | Some client \<Rightarrow>
           withClock
             (\<lambda>now. bindIO (jobUpdateIO ev ident (startStep now))
                (\<lambda>_. bindIO (extractProducts fuel ev client ident settings)
                   (\<lambda>products. finishJob ev ident shop settings products))))
      (completed base) (stopped base)" for loaded shop settings
  proof (cases loaded)
    case None
    then show ?thesis by (simp add: hoare_throw stop0)
  next
    case (Some client)
    have "hoare (reached base 0)
        (bindIO (jobUpdateIO ev ident (startStep now))
           (\<lambda>_. bindIO (extractProducts fuel ev client ident settings)
              (\<lambda>products. finishJob ev ident shop settings products)))
        (completed base) (stopped base)" for now
    proof (rule checkpoint_step [OF marksOf_steps(1)])
      show "(0::nat) < 4" by simp
      show "hoare (reached base (Suc 0))
          (bindIO (extractProducts fuel ev client ident settings)
             (\<lambda>products. finishJob ev ident shop settings products))
          (completed base) (stopped base)"
        by (rule quiet_step [OF quiet_extractProducts])
           (simp, rule finishJob_marks [unfolded One_nat_def])
    qed
    with Some show ?thesis by (simp add: hoare_withClock)
  qed
  have found: "hoare (reached base 0)
      (case found of
         None \<Rightarrow> throwIO (Error ''Job not found'')
       | Some j \<Rightarrow>
           (let shop = jobShopDomain j;
                settings = orElse (settingsJson j) emptySettings
            in bindIO (guarded ev (returnIO (loadSession ev (''offline_'' @ shop))))
                 (\<lambda>loaded. case loaded of
                    None \<Rightarrow> throwIO (Error (''Missing offline session for '' @ shop))
                  | Some client \<Rightarrow>
                      withClock
                        (\<lambda>now. bindIO (jobUpdateIO ev ident (startStep now))
                           (\<lambda>_. bindIO (extractProducts fuel ev client ident settings)
                              (\<lambda>products. finishJob ev ident shop settings products))))))
      (completed base) (stopped base)" for found
  proof (cases found)
    case None
    then show ?thesis by (simp add: hoare_throw stop0)
  next
    case (Some j)
    have q: "quiet (guarded ev (returnIO (loadSession ev (''offline_'' @ jobShopDomain j))))"
      by (intro quiet_guarded quiet_return)
    have "hoare (reached base 0)
        (bindIO (guarded ev (returnIO (loadSession ev (''offline_'' @ jobShopDomain j))))
           (\<lambda>loaded. case loaded of
              None \<Rightarrow> throwIO (Error (''Missing offline session for '' @ jobShopDomain j))
            | Some client \<Rightarrow>
                withClock
                  (\<lambda>now. bindIO (jobUpdateIO ev ident (startStep now))
                     (\<lambda>_. bindIO (extractProducts fuel ev client ident
                                    (orElse (settingsJson j) emptySettings))
                        (\<lambda>products. finishJob ev ident (jobShopDomain j)
                                      (orElse (settingsJson j) emptySettings) products)))))
        (completed base) (stopped base)"
      by (rule quiet_step [OF q]) (simp, rule session)
    then show ?thesis unfolding Some option.case Let_def .
  qed
  show ?thesis
    unfolding runCatalogJob_def
    by (rule quiet_step [OF quiet_jobFindUnique]) (simp_all add: found)
qed

lemma hoare_const: "hoare (\<lambda>w. C) m (\<lambda>a w. C) (\<lambda>w. True)"
  by (auto simp: hoare_def split: outcome.splits)

lemma const_step:
  assumes "\<And>a. hoare (\<lambda>w. C) (f a) Q (\<lambda>w. True)"
  shows "hoare (\<lambda>w. C) (bindIO m f) Q (\<lambda>w. True)"
  by (rule hoare_bind [OF hoare_const]) (rule assms)

lemma jobUpdateIO_row:
  "jobUpdateIO ev ident u w = Returns a w' \<Longrightarrow> \<exists>j. jobs w ident = Some j \<and> jobs w' ident = Some (applyUpdate u j)"
  by (auto simp: jobUpdateIO_def guarded_def called_def split: option.splits)

lemma last_step:
  "hoare (\<lambda>w. C)
     (bindIO (jobUpdateIO ev ident (finalStep hf now)) (\<lambda>_. returnIO hf))
     (\<lambda>r w'. r = hf \<and> C \<and> (\<exists>j. jobs w' ident = Some (applyUpdate (finalStep hf now) j)))
     (\<lambda>w. True)"
  unfolding hoare_def
proof (intro allI impI)
  fix w assume C
  then show "case bindIO (jobUpdateIO ev ident (finalStep hf now)) (\<lambda>_. returnIO hf) w of
      Returns r w' \<Rightarrow> r = hf \<and> C \<and> (\<exists>j. jobs w' ident = Some (applyUpdate (finalStep hf now) j))
    | Throws e w' \<Rightarrow> True | OutOfFuel w' \<Rightarrow> True"
    by (cases "jobUpdateIO ev ident (finalStep hf now) w")
       (auto simp: bindIO_def returnIO_def dest: jobUpdateIO_row)
qed

text \<open>
  The run from the image stage on: it returns the flag of the image stage and has written
  the final status from it.
\<close>

lemma finishJob_final:
  "hoare (\<lambda>w. w = w0) (finishJob ev ident shop settings products)
     (\<lambda>hf w'.
        (\<exists>w5 records' w6.
            jobUpdateIO ev ident
              (imagesStep (length (sortRecords (localeCompareOf ev)
                 (map (\<lambda>product. buildProductRecord (jsNumberOf ev) (jsStringOf ev) product settings)
                    products) settings))) w0 = Returns () w5
          \<and> downloadCovers ev ident
                (sortRecords (localeCompareOf ev)
                   (map (\<lambda>product. buildProductRecord (jsNumberOf ev) (jsStringOf ev) product settings)
                      products) settings) w5 = Returns (records', hf) w6)
        \<and> (\<exists>j now. jobs w' ident = Some (applyUpdate (finalStep hf now) j)))
     (\<lambda>w. True)"
proof -
  let ?sorted = "sortRecords (localeCompareOf ev)
      (map (\<lambda>product. buildProductRecord (jsNumberOf ev) (jsStringOf ev) product settings)
         products) settings"
  let ?ran = "\<lambda>imageResult. \<exists>w5 w6.
      jobUpdateIO ev ident (imagesStep (length ?sorted)) w0 = Returns () w5
      \<and> downloadCovers ev ident ?sorted w5 = Returns imageResult w6"
  have rest: "hoare (\<lambda>w. C)
      (withClock
      (\<lambda>generatedAt.
         (let manifestBuffer = jsonBytes ev
                \<lparr> manifestJobId = ident, manifestShopDomain = shop,
                  manifestGeneratedAt = generatedAt, manifestSettings = settings,
                  manifestProducts = fst imageResult \<rparr>
          in bindIO (storageWrite ev (''jobs/'' @ ident @ ''/manifest.json'') manifestBuffer)
      (\<lambda>storedKey. withClock
      (\<lambda>now. bindIO (jobFileCreate ev
                        (jobFileOf ident MANIFEST storedKey ''application/json''
                           (length manifestBuffer) now))
      (\<lambda>manifestFile. bindIO (jobUpdateIO ev ident pdfStep)
      (\<lambda>_. bindIO (buildPdf ev ident (fst imageResult) settings)
      (\<lambda>pdfPath. withClock
      (\<lambda>now. bindIO (jobFileCreate ev
                        (jobFileOf ident PDF (fst pdfPath) ''application/pdf'' (snd pdfPath) now))
      (\<lambda>_. bindIO (jobUpdateIO ev ident zipStep)
      (\<lambda>_. bindIO (buildImagesZip ev ident (fst imageResult)
                      (Some (fileStorageKey manifestFile)) settings)
      (\<lambda>zipPath. withClock
      (\<lambda>now. bindIO (jobFileCreate ev
                        (jobFileOf ident IMAGES_ZIP (fst zipPath) ''application/zip'' (snd zipPath) now))
      (\<lambda>_. withClock
      (\<lambda>now. bindIO (jobUpdateIO ev ident (finalStep (snd imageResult) now))
      (\<lambda>_. returnIO (snd imageResult)))))))))))))))))
     (\<lambda>hf w'. hf = snd imageResult \<and> C
        \<and> (\<exists>j now. jobs w' ident = Some (applyUpdate (finalStep hf now) j)))
     (\<lambda>w. True)" for imageResult C
    unfolding Let_def
    apply (rule hoare_withClock)
    apply (rule const_step)
    apply (rule hoare_withClock)
    apply (rule const_step)
    apply (rule const_step)
    apply (rule const_step)
    apply (rule hoare_withClock)
    apply (rule const_step)
    apply (rule const_step)
    apply (rule const_step)
    apply (rule hoare_withClock)
    apply (rule const_step)
    apply (rule hoare_withClock)
    apply (rule hoare_weaken [OF last_step [where C = C]])
      apply auto
    done
  have first: "hoare (\<lambda>w. w = w0) (jobUpdateIO ev ident (imagesStep (length ?sorted)))
      (\<lambda>a w5. jobUpdateIO ev ident (imagesStep (length ?sorted)) w0 = Returns () w5) (\<lambda>w. True)"
    by (auto simp: hoare_def split: outcome.splits)
  have second: "hoare (\<lambda>w5. jobUpdateIO ev ident (imagesStep (length ?sorted)) w0 = Returns () w5)
      (downloadCovers ev ident ?sorted) (\<lambda>imageResult w6. ?ran imageResult) (\<lambda>w. True)"
    by (auto simp: hoare_def split: outcome.splits)
  have third: "hoare (\<lambda>w. ?ran imageResult)
      (withClock
      (\<lambda>generatedAt.
         (let manifestBuffer = jsonBytes ev
                \<lparr> manifestJobId = ident, manifestShopDomain = shop,
                  manifestGeneratedAt = generatedAt, manifestSettings = settings,
                  manifestProducts = fst imageResult \<rparr>
          in bindIO (storageWrite ev (''jobs/'' @ ident @ ''/manifest.json'') manifestBuffer)
      (\<lambda>storedKey. withClock
      (\<lambda>now. bindIO (jobFileCreate ev
                        (jobFileOf ident MANIFEST storedKey ''application/json''
                           (length manifestBuffer) now))
      (\<lambda>manifestFile. bindIO (jobUpdateIO ev ident pdfStep)
      (\<lambda>_. bindIO (buildPdf ev ident (fst imageResult) settings)
      (\<lambda>pdfPath. withClock
      (\<lambda>now. bindIO (jobFileCreate ev
                        (jobFileOf ident PDF (fst pdfPath) ''application/pdf'' (snd pdfPath) now))
      (\<lambda>_. bindIO (jobUpdateIO ev ident zipStep)
      (\<lambda>_. bindIO (buildImagesZip ev ident (fst imageResult)
                      (Some (fileStorageKey manifestFile)) settings)
      (\<lambda>zipPath. withClock
      (\<lambda>now. bindIO (jobFileCreate ev
                        (jobFileOf ident IMAGES_ZIP (fst zipPath) ''application/zip'' (snd zipPath) now))
      (\<lambda>_. withClock
      (\<lambda>now. bindIO (jobUpdateIO ev ident (finalStep (snd imageResult) now))
      (\<lambda>_. returnIO (snd imageResult)))))))))))))))))
     (\<lambda>hf w'.
        (\<exists>w5 records' w6.
            jobUpdateIO ev ident (imagesStep (length ?sorted)) w0 = Returns () w5
          \<and> downloadCovers ev ident ?sorted w5 = Returns (records', hf) w6)
        \<and> (\<exists>j now. jobs w' ident = Some (applyUpdate (finalStep hf now) j)))
     (\<lambda>w. True)" for imageResult
  proof (rule hoare_weaken [OF rest [where C = "?ran imageResult"]])
    fix hf w'
    assume "hf = snd imageResult \<and> ?ran imageResult
        \<and> (\<exists>j now. jobs w' ident = Some (applyUpdate (finalStep hf now) j))"
    then show "(\<exists>w5 records' w6.
            jobUpdateIO ev ident (imagesStep (length ?sorted)) w0 = Returns () w5
          \<and> downloadCovers ev ident ?sorted w5 = Returns (records', hf) w6)
        \<and> (\<exists>j now. jobs w' ident = Some (applyUpdate (finalStep hf now) j))"
      by (cases imageResult) auto
  qed simp_all
  show ?thesis
    unfolding finishJob_def Let_def
    apply (rule hoare_bind [OF first])
    apply (rule hoare_bind [OF second])
    apply (rule third [unfolded Let_def])
    done
qed

subsection \<open>Evaluation of the sample shop\<close>

lemma sampleEnv_fields:
  "loadSession (sampleEnv h) s = (if s = ''offline_shop.example''
      then Some sampleSession else None)"
  "failure (sampleEnv h) n = None"
  "graphql (sampleEnv h) n client req = sampleShop req"
  "http (sampleEnv h) n url = h n"
  "latency (sampleEnv h) n = 10"
  "jsNumberOf (sampleEnv h) = sampleNumber"
  "jsStringOf (sampleEnv h) = sampleString"
  "localeCompareOf (sampleEnv h) a b = 0"
  "canEmbedPng (sampleEnv h) = (\<lambda>bs. True)"
  "canEmbedJpg (sampleEnv h) = (\<lambda>bs. False)"
  "fontError (sampleEnv h) = sampleFont"
  "schedule (sampleEnv h) n = 0"
  "pdfSave (sampleEnv h) pages = replicate (length pages) 37"
  "jsonBytes (sampleEnv h) m = [123, 125]"
  "zipBytes (sampleEnv h) entries = concat (map snd entries)"
  by (simp_all add: sampleEnv_def)

lemma three:
  "gridRowLoop lib cp 3 = gridRowLoop lib cp (Suc (Suc (Suc 0)))"
  "gridColumnLoop lib cp 3 = gridColumnLoop lib cp (Suc (Suc (Suc 0)))"
  "startWorkers ident 5 = startWorkers ident (Suc (Suc (Suc (Suc (Suc 0)))))"
  by (simp_all add: numeral_3_eq_3 eval_nat_numeral)

lemmas pool_defs = downloadCovers_def runWorkers.simps nextTask_def loopHead_def attemptOf_def
  createIssue_def addCounts_def downloadedDelta_def failedDelta_def extensionOf_def three

lemmas run_defs = runCatalogJob_def finishJob_def extractProducts_def bulkExtract_def
  startBulkOperation_def waitForBulkResult_def waitLoop.simps io_defs sampleEnv_fields
  sampleWorld_def sampleShop_def bulkMaxWaitMs_def fetchProductsPaginated_def fallbackStep_def
  noUpdate_def sampleJob_def applyUpdate_def Let_def startStep_def imagesStep_def pdfStep_def
  zipStep_def finalStep_def pool_defs pngResponse_def
  buildProductRecord_def resolvePrice_def resolveCoverUrl_def firstOf_def
  nodeAccumulator_def sampleNode_def emptySettings_def sortRecords_def sortBy_def buildPdf_def
  buildPdfPages_def layoutPages_def buildGroupedItems_def pdfLibOf_def watermarkOf_def
  drawWatermark_def drawGridCell_def drawImageOrPlaceholder_def endsWith_def drawPriceLine_def
  drawText_def sampleFont_def savedPages_def
  columnsOf.simps buildImagesZip_def zipEntry_def applyPriceOverlay_def jobFileOf_def
  smallVariant_def largeVariant_def

lemma sample_run_completed:
  "\<exists>w'. runCatalogJob 1 (sampleEnv (\<lambda>n. pngResponse)) ''j1'' sampleWorld = Returns False w'"
  by (simp add: run_defs)

lemma sample_run_partial:
  "\<exists>w'. runCatalogJob 1 (sampleEnv (\<lambda>n. FetchRejected)) ''j1'' sampleWorld = Returns True w'"
  by (simp add: run_defs)

lemma sample_run_throws:
  "\<exists>w'. runCatalogJob 1 ((sampleEnv h)\<lparr> loadSession := \<lambda>s. None \<rparr>) ''j1'' sampleWorld
      = Throws (Error ''Missing offline session for shop.example'') w'
      \<and> jobs w' ''j1'' = Some sampleJob \<and> statusWrites w' = []"
  by (simp add: run_defs sampleEnv_def statusWrites_def)

lemma sampleWorld_logs: "marks sampleWorld = []" "progressWrites sampleWorld = []"
  "statusWrites sampleWorld = []"
  by (simp_all add: marks_def progressWrites_def statusWrites_def sampleWorld_def)

lemma sample_bulk_fails:
  "\<exists>w1. bulkExtract (sampleEnv h) client (buildBulkQuery emptySettings) sampleWorld
      = Throws (Error ''Bulk operation FAILED'') w1"
  by (simp add: run_defs)

lemma sample_fallback_returns:
  "\<exists>w2. extractProducts 1 (sampleEnv h) client ''j1'' emptySettings sampleWorld
      = Returns [nodeAccumulator sampleNode] w2"
  by (simp add: run_defs)

subsection \<open>Progress and terminal status\<close>

lemma progress_of_marks:
  "concat (map (\<lambda>e. case setProgressPercent (snd e) of None \<Rightarrow> [] | Some p \<Rightarrow> [p]) ws)
     = concat (map progressOf (concat (map (\<lambda>e. marksOf (snd e)) ws)))"
  by (induction ws) (auto simp: marksOf_def progressOf_def split: option.splits)

lemma status_of_marks:
  "concat (map (\<lambda>e. case setStatus (snd e) of None \<Rightarrow> [] | Some s \<Rightarrow> [s]) ws)
     = concat (map statusOf (concat (map (\<lambda>e. marksOf (snd e)) ws)))"
  by (induction ws) (auto simp: marksOf_def statusOf_def split: option.splits)

lemma progressWrites_marks: "progressWrites w = concat (map progressOf (marks w))"
  by (simp add: progressWrites_def marks_def progress_of_marks)

lemma statusWrites_marks: "statusWrites w = concat (map statusOf (marks w))"
  by (simp add: statusWrites_def marks_def status_of_marks)

lemma below_five: "k < 5 \<Longrightarrow> k = 0 \<or> k = 1 \<or> k = 2 \<or> k = 3 \<or> k = (4::nat)"
  by arith

lemma progress_of_checkpoints:
  "concat (map progressOf (checkpoints hf)) = [5, 35, 70, 85, 100]"
  by (simp add: checkpoints_def progressOf_def)

lemma progress_of_prefix:
  "k < 5 \<Longrightarrow> concat (map progressOf (take k (checkpoints False))) = take k [5, 35, 70, 85, 100]"
  by (drule below_five) (auto simp: checkpoints_def progressOf_def)

lemma status_of_checkpoints:
  "set (concat (map statusOf (take k (checkpoints hf)))) \<subseteq> {RUNNING, PARTIAL, COMPLETED}"
proof -
  have "set (take k (checkpoints hf)) \<subseteq> set (checkpoints hf)" by (rule set_take_subset)
  then show ?thesis by (auto simp: checkpoints_def statusOf_def split: if_splits)
qed

lemma runCatalogJob_reaches:
  "case runCatalogJob fuel ev ident w of
     Returns hf w' \<Rightarrow> marks w' = marks w @ checkpoints hf
   | Throws e w' \<Rightarrow> (\<exists>k. k < 5 \<and> marks w' = marks w @ take k (checkpoints False))
   | OutOfFuel w' \<Rightarrow> (\<exists>k. k < 5 \<and> marks w' = marks w @ take k (checkpoints False))"
proof -
  have "reached (marks w) 0 w" by (simp add: reached_def)
  with runCatalogJob_marks [of "marks w" fuel ev ident] show ?thesis
    by (cases "runCatalogJob fuel ev ident w")
       (auto simp: hoare_def reached_def stopped_def completed_def)
qed

text \<open>
  C9. Within one run of \<open>runCatalogJob\<close> the writes of the job's progress percent are, in this
  order, 5, 35, 70, 85 and 100, each written together with its current-step label
  (\<open>checkpoints\<close>); a run that stops early (an uncaught error, or the page budget of the model
  used up) has written a proper prefix of them. The sequence is non-decreasing, so the progress
  of the job never goes down during the run.
\<close>

theorem runCatalogJob_progress:
  "case runCatalogJob fuel ev ident w of
     Returns hf w' \<Rightarrow>
       marks w' = marks w @ checkpoints hf
       \<and> progressWrites w' = progressWrites w @ [5, 35, 70, 85, 100]
   | Throws e w' \<Rightarrow>
       (\<exists>k. k < 5 \<and> marks w' = marks w @ take k (checkpoints False)
            \<and> progressWrites w' = progressWrites w @ take k [5, 35, 70, 85, 100])
   | OutOfFuel w' \<Rightarrow>
       (\<exists>k. k < 5 \<and> marks w' = marks w @ take k (checkpoints False)
            \<and> progressWrites w' = progressWrites w @ take k [5, 35, 70, 85, 100])"
  using runCatalogJob_reaches [where fuel = fuel and ev = ev and ident = ident and w = w]
  by (cases "runCatalogJob fuel ev ident w")
     (auto simp: progressWrites_marks progress_of_checkpoints progress_of_prefix)

theorem runCatalogJob_progress_witness:
  "\<exists>w'. runCatalogJob 1 (sampleEnv (\<lambda>n. pngResponse)) ''j1'' sampleWorld = Returns False w'
     \<and> progressWrites w' = [5, 35, 70, 85, 100]
     \<and> marks w' = [(Some 5, Some ''Collecting products'', Some RUNNING),
                    (Some 35, Some ''Downloading cover images'', None),
                    (Some 70, Some ''Building PDF'', None),
                    (Some 85, Some ''Packaging ZIP'', None),
                    (Some 100, Some ''Completed'', Some COMPLETED)]"
proof -
  from sample_run_completed obtain w' where
    r: "runCatalogJob 1 (sampleEnv (\<lambda>n. pngResponse)) ''j1'' sampleWorld = Returns False w'"
    by blast
  from runCatalogJob_progress [where fuel = 1 and ev = "sampleEnv (\<lambda>n. pngResponse)" and ident = "''j1''" and w = sampleWorld] r
  have "marks w' = checkpoints False" and "progressWrites w' = [5, 35, 70, 85, 100]"
    by (simp_all add: sampleWorld_logs)
  with r show ?thesis by (simp add: checkpoints_def)
qed

lemma workerRun_marks_failed:
  assumes "runCatalogJob fuel ev ident w = Throws (Error message) w1"
    and "failure ev (tick w1) = None" and "jobs w1 ident = Some j0"
  shows "\<exists>w2 j. workerRun fuel ev ident w = Throws (Error message) w2 \<and> jobs w2 ident = Some j
      \<and> jobStatusOf j = FAILED \<and> errorSummary j = Some message
      \<and> statusWrites w2 = statusWrites w1 @ [FAILED]"
  using assms
  by (simp add: workerRun_def catchIO_def withClock_def bindIO_def jobUpdateIO_def guarded_def
      called_def throwIO_def failedStep_def noUpdate_def applyUpdate_def statusWrites_def)

lemma runCatalogJob_stages:
  assumes "runCatalogJob fuel ev ident w = Returns hf w'"
  shows "\<exists>j client w1 w2 w3 products w4.
      jobFindUnique ev ident w = Returns (Some j) w1
    \<and> guarded ev (returnIO (loadSession ev (''offline_'' @ jobShopDomain j))) w1
        = Returns (Some client) w2
    \<and> jobUpdateIO ev ident (startStep (clock w2)) w2 = Returns () w3
    \<and> extractProducts fuel ev client ident (orElse (settingsJson j) emptySettings) w3
        = Returns products w4
    \<and> finishJob ev ident (jobShopDomain j) (orElse (settingsJson j) emptySettings) products w4
        = Returns hf w'"
proof -
  from assms obtain found w1 where
    a: "jobFindUnique ev ident w = Returns found w1" and
    b: "(case found of
           None \<Rightarrow> throwIO (Error ''Job not found'')
         | Some j \<Rightarrow>
             (let shop = jobShopDomain j;
                  settings = orElse (settingsJson j) emptySettings
              in bindIO (guarded ev (returnIO (loadSession ev (''offline_'' @ shop))))
                   (\<lambda>loaded. case loaded of
                      None \<Rightarrow> throwIO (Error (''Missing offline session for '' @ shop))
                    | Some client \<Rightarrow>
                        withClock
                          (\<lambda>now. bindIO (jobUpdateIO ev ident (startStep now))
                             (\<lambda>_. bindIO (extractProducts fuel ev client ident settings)
                                (\<lambda>products. finishJob ev ident shop settings products)))))) w1
         = Returns hf w'"
    unfolding runCatalogJob_def bindIO_def by (auto split: outcome.splits)
  from b obtain j where j: "found = Some j" by (cases found) (auto simp: throwIO_def)
  let ?shop = "jobShopDomain j" and ?settings = "orElse (settingsJson j) emptySettings"
  from b j obtain loaded w2 where
    c: "guarded ev (returnIO (loadSession ev (''offline_'' @ ?shop))) w1 = Returns loaded w2" and
    d: "(case loaded of
           None \<Rightarrow> throwIO (Error (''Missing offline session for '' @ ?shop))
         | Some client \<Rightarrow>
             withClock
               (\<lambda>now. bindIO (jobUpdateIO ev ident (startStep now))
                  (\<lambda>_. bindIO (extractProducts fuel ev client ident ?settings)
                     (\<lambda>products. finishJob ev ident ?shop ?settings products)))) w2
         = Returns hf w'"
    unfolding Let_def bindIO_def by (auto split: outcome.splits)
  from d obtain client where client: "loaded = Some client" by (cases loaded) (auto simp: throwIO_def)
  from d client obtain u w3 where
    e: "jobUpdateIO ev ident (startStep (clock w2)) w2 = Returns u w3" and
    f: "bindIO (extractProducts fuel ev client ident ?settings)
          (\<lambda>products. finishJob ev ident ?shop ?settings products) w3 = Returns hf w'"
    unfolding withClock_def by (auto simp: bindIO_def split: outcome.splits)
  from f obtain products w4 where
    g: "extractProducts fuel ev client ident ?settings w3 = Returns products w4" and
    h: "finishJob ev ident ?shop ?settings products w4 = Returns hf w'"
    by (auto simp: bindIO_def split: outcome.splits)
  from a j c client e g h show ?thesis by auto
qed

lemma status_of_run: "concat (map statusOf (checkpoints hf)) = [RUNNING, if hf then PARTIAL else COMPLETED]"
  by (simp add: checkpoints_def statusOf_def)

text \<open>
  C1. A run of \<open>runCatalogJob\<close> that returns has gone through the stages up to the image
  stage, and leaves the job with status \<open>COMPLETED\<close> when \<open>downloadCovers\<close> of this run gave
  \<open>hasFailures = false\<close> and \<open>PARTIAL\<close> otherwise; the statuses it has written are \<open>RUNNING\<close>
  and then that one. No write of the run sets the status \<open>FAILED\<close>, however the run ends;
  and when the run throws, the failure handler of the caller (\<open>workerRun\<close>) is what writes
  \<open>FAILED\<close>, with the message of the error as summary.
\<close>

theorem runCatalogJob_terminal_status:
  "(\<forall>hf w'. runCatalogJob fuel ev ident w = Returns hf w' \<longrightarrow>
       (\<exists>j client w1 w2 w3 products w4 w5 records' w6.
           jobFindUnique ev ident w = Returns (Some j) w1
         \<and> guarded ev (returnIO (loadSession ev (''offline_'' @ jobShopDomain j))) w1
             = Returns (Some client) w2
         \<and> jobUpdateIO ev ident (startStep (clock w2)) w2 = Returns () w3
         \<and> extractProducts fuel ev client ident (orElse (settingsJson j) emptySettings) w3
             = Returns products w4
         \<and> jobUpdateIO ev ident
              (imagesStep (length (sortRecords (localeCompareOf ev)
                 (map (\<lambda>product. buildProductRecord (jsNumberOf ev) (jsStringOf ev) product
                                   (orElse (settingsJson j) emptySettings))
                    products) (orElse (settingsJson j) emptySettings)))) w4 = Returns () w5
         \<and> downloadCovers ev ident
              (sortRecords (localeCompareOf ev)
                 (map (\<lambda>product. buildProductRecord (jsNumberOf ev) (jsStringOf ev) product
                                   (orElse (settingsJson j) emptySettings))
                    products) (orElse (settingsJson j) emptySettings)) w5
             = Returns (records', hf) w6)
       \<and> (\<exists>j. jobs w' ident = Some j \<and> jobStatusOf j = (if hf then PARTIAL else COMPLETED))
       \<and> statusWrites w' = statusWrites w @ [RUNNING, if hf then PARTIAL else COMPLETED])
   \<and> FAILED \<notin> set (drop (length (statusWrites w))
                     (statusWrites (worldOf (runCatalogJob fuel ev ident w))))
   \<and> (\<forall>message w1. runCatalogJob fuel ev ident w = Throws (Error message) w1
         \<and> failure ev (tick w1) = None \<and> jobs w1 ident \<noteq> None \<longrightarrow>
       (\<exists>w2 j. workerRun fuel ev ident w = Throws (Error message) w2 \<and> jobs w2 ident = Some j
           \<and> jobStatusOf j = FAILED \<and> errorSummary j = Some message
           \<and> statusWrites w2 = statusWrites w1 @ [FAILED]))"
proof -
  have ret: "(\<exists>j client w1 w2 w3 products w4 w5 records' w6.
           jobFindUnique ev ident w = Returns (Some j) w1
         \<and> guarded ev (returnIO (loadSession ev (''offline_'' @ jobShopDomain j))) w1
             = Returns (Some client) w2
         \<and> jobUpdateIO ev ident (startStep (clock w2)) w2 = Returns () w3
         \<and> extractProducts fuel ev client ident (orElse (settingsJson j) emptySettings) w3
             = Returns products w4
         \<and> jobUpdateIO ev ident
              (imagesStep (length (sortRecords (localeCompareOf ev)
                 (map (\<lambda>product. buildProductRecord (jsNumberOf ev) (jsStringOf ev) product
                                   (orElse (settingsJson j) emptySettings))
                    products) (orElse (settingsJson j) emptySettings)))) w4 = Returns () w5
         \<and> downloadCovers ev ident
              (sortRecords (localeCompareOf ev)
                 (map (\<lambda>product. buildProductRecord (jsNumberOf ev) (jsStringOf ev) product
                                   (orElse (settingsJson j) emptySettings))
                    products) (orElse (settingsJson j) emptySettings)) w5
             = Returns (records', hf) w6)
       \<and> (\<exists>j. jobs w' ident = Some j \<and> jobStatusOf j = (if hf then PARTIAL else COMPLETED))
       \<and> statusWrites w' = statusWrites w @ [RUNNING, if hf then PARTIAL else COMPLETED]"
    if r: "runCatalogJob fuel ev ident w = Returns hf w'" for hf w'
  proof -
    from runCatalogJob_stages [OF r] obtain j client w1 w2 w3 products w4 where
      s: "jobFindUnique ev ident w = Returns (Some j) w1"
         "guarded ev (returnIO (loadSession ev (''offline_'' @ jobShopDomain j))) w1
            = Returns (Some client) w2"
         "jobUpdateIO ev ident (startStep (clock w2)) w2 = Returns () w3"
         "extractProducts fuel ev client ident (orElse (settingsJson j) emptySettings) w3
            = Returns products w4" and
      f: "finishJob ev ident (jobShopDomain j) (orElse (settingsJson j) emptySettings) products w4
            = Returns hf w'"
      by blast
    from hoare_outcome [OF finishJob_final _ f, of w4]
    obtain w5 records' w6 j' now where
      i: "jobUpdateIO ev ident
              (imagesStep (length (sortRecords (localeCompareOf ev)
                 (map (\<lambda>product. buildProductRecord (jsNumberOf ev) (jsStringOf ev) product
                                   (orElse (settingsJson j) emptySettings))
                    products) (orElse (settingsJson j) emptySettings)))) w4 = Returns () w5"
         "downloadCovers ev ident
              (sortRecords (localeCompareOf ev)
                 (map (\<lambda>product. buildProductRecord (jsNumberOf ev) (jsStringOf ev) product
                                   (orElse (settingsJson j) emptySettings))
                    products) (orElse (settingsJson j) emptySettings)) w5
             = Returns (records', hf) w6" and
      row: "jobs w' ident = Some (applyUpdate (finalStep hf now) j')"
      by auto
    from row have st: "\<exists>j. jobs w' ident = Some j \<and> jobStatusOf j = (if hf then PARTIAL else COMPLETED)"
      by (simp add: applyUpdate_def finalStep_def noUpdate_def)
    from runCatalogJob_reaches [where fuel = fuel and ev = ev and ident = ident and w = w] r
    have "marks w' = marks w @ checkpoints hf" by simp
    then have log: "statusWrites w' = statusWrites w @ [RUNNING, if hf then PARTIAL else COMPLETED]"
      by (simp add: statusWrites_marks status_of_run)
    from s i st log show ?thesis by blast
  qed
  have "\<exists>k hf. marks (worldOf (runCatalogJob fuel ev ident w)) = marks w @ take k (checkpoints hf)"
  proof (cases "runCatalogJob fuel ev ident w")
    case (Returns hf w')
    with runCatalogJob_reaches [where fuel = fuel and ev = ev and ident = ident and w = w]
    have "marks (worldOf (runCatalogJob fuel ev ident w)) = marks w @ take 5 (checkpoints hf)"
      by (simp add: checkpoints_def)
    then show ?thesis by blast
  next
    case (Throws e w')
    with runCatalogJob_reaches [where fuel = fuel and ev = ev and ident = ident and w = w]
    show ?thesis by auto
  next
    case (OutOfFuel w')
    with runCatalogJob_reaches [where fuel = fuel and ev = ev and ident = ident and w = w]
    show ?thesis by auto
  qed
  then obtain k hf where
    "marks (worldOf (runCatalogJob fuel ev ident w)) = marks w @ take k (checkpoints hf)" by blast
  then have "drop (length (statusWrites w)) (statusWrites (worldOf (runCatalogJob fuel ev ident w)))
      = concat (map statusOf (take k (checkpoints hf)))"
    by (simp add: statusWrites_marks)
  with status_of_checkpoints [of k hf]
  have never: "FAILED \<notin> set (drop (length (statusWrites w))
                     (statusWrites (worldOf (runCatalogJob fuel ev ident w))))"
    by auto
  have caller: "\<exists>w2 j. workerRun fuel ev ident w = Throws (Error message) w2 \<and> jobs w2 ident = Some j
           \<and> jobStatusOf j = FAILED \<and> errorSummary j = Some message
           \<and> statusWrites w2 = statusWrites w1 @ [FAILED]"
    if "runCatalogJob fuel ev ident w = Throws (Error message) w1
         \<and> failure ev (tick w1) = None \<and> jobs w1 ident \<noteq> None" for message w1
    using that workerRun_marks_failed by blast
  from ret never caller show ?thesis by blast
qed

theorem runCatalogJob_terminal_status_witness:
  "(\<exists>w' j. runCatalogJob 1 (sampleEnv (\<lambda>n. pngResponse)) ''j1'' sampleWorld = Returns False w'
       \<and> jobs w' ''j1'' = Some j \<and> jobStatusOf j = COMPLETED
       \<and> statusWrites w' = [RUNNING, COMPLETED])
   \<and> (\<exists>w' j. runCatalogJob 1 (sampleEnv (\<lambda>n. FetchRejected)) ''j1'' sampleWorld = Returns True w'
       \<and> jobs w' ''j1'' = Some j \<and> jobStatusOf j = PARTIAL
       \<and> statusWrites w' = [RUNNING, PARTIAL])
   \<and> (\<exists>w1 w2 j. runCatalogJob 1 ((sampleEnv (\<lambda>n. pngResponse))\<lparr> loadSession := \<lambda>s. None \<rparr>)
                    ''j1'' sampleWorld
                  = Throws (Error ''Missing offline session for shop.example'') w1
       \<and> workerRun 1 ((sampleEnv (\<lambda>n. pngResponse))\<lparr> loadSession := \<lambda>s. None \<rparr>) ''j1'' sampleWorld
           = Throws (Error ''Missing offline session for shop.example'') w2
       \<and> jobs w2 ''j1'' = Some j \<and> jobStatusOf j = FAILED
       \<and> errorSummary j = Some ''Missing offline session for shop.example''
       \<and> statusWrites w1 = [] \<and> statusWrites w2 = [FAILED])"
proof -
  let ?none = "(sampleEnv (\<lambda>n. pngResponse))\<lparr> loadSession := \<lambda>s. None \<rparr>"
  from sample_run_completed obtain wa where
    a: "runCatalogJob 1 (sampleEnv (\<lambda>n. pngResponse)) ''j1'' sampleWorld = Returns False wa"
    by blast
  from sample_run_partial obtain wb where
    b: "runCatalogJob 1 (sampleEnv (\<lambda>n. FetchRejected)) ''j1'' sampleWorld = Returns True wb"
    by blast
  from sample_run_throws [of "\<lambda>n. pngResponse"] obtain w1 where
    c: "runCatalogJob 1 ?none ''j1'' sampleWorld
          = Throws (Error ''Missing offline session for shop.example'') w1"
    and j1: "jobs w1 ''j1'' = Some sampleJob" and s1: "statusWrites w1 = []" by blast
  have f: "failure ?none (tick w1) = None" by (simp add: sampleEnv_def)
  note ran = runCatalogJob_terminal_status [where fuel = 1 and ident = "''j1''" and w = sampleWorld]
  from ran [where ev = "sampleEnv (\<lambda>n. pngResponse)", THEN conjunct1, rule_format, OF a]
  have p1: "\<exists>j. jobs wa ''j1'' = Some j \<and> jobStatusOf j = COMPLETED"
    and q1: "statusWrites wa = [RUNNING, COMPLETED]" by (simp_all add: sampleWorld_logs)
  from ran [where ev = "sampleEnv (\<lambda>n. FetchRejected)", THEN conjunct1, rule_format, OF b]
  have p2: "\<exists>j. jobs wb ''j1'' = Some j \<and> jobStatusOf j = PARTIAL"
    and q2: "statusWrites wb = [RUNNING, PARTIAL]" by (simp_all add: sampleWorld_logs)
  from c f j1
  have "runCatalogJob 1 ?none ''j1'' sampleWorld
          = Throws (Error ''Missing offline session for shop.example'') w1
        \<and> failure ?none (tick w1) = None \<and> jobs w1 ''j1'' \<noteq> None" by simp
  with ran [where ev = ?none, THEN conjunct2, THEN conjunct2, rule_format,
      of "''Missing offline session for shop.example''" w1]
  have p3: "\<exists>w2 j. workerRun 1 ?none ''j1'' sampleWorld
             = Throws (Error ''Missing offline session for shop.example'') w2
           \<and> jobs w2 ''j1'' = Some j \<and> jobStatusOf j = FAILED
           \<and> errorSummary j = Some ''Missing offline session for shop.example''
           \<and> statusWrites w2 = statusWrites w1 @ [FAILED]"
    by blast
  from a p1 q1 have one: "\<exists>w' j. runCatalogJob 1 (sampleEnv (\<lambda>n. pngResponse)) ''j1'' sampleWorld
       = Returns False w' \<and> jobs w' ''j1'' = Some j \<and> jobStatusOf j = COMPLETED
       \<and> statusWrites w' = [RUNNING, COMPLETED]" by blast
  from b p2 q2 have two: "\<exists>w' j. runCatalogJob 1 (sampleEnv (\<lambda>n. FetchRejected)) ''j1'' sampleWorld
       = Returns True w' \<and> jobs w' ''j1'' = Some j \<and> jobStatusOf j = PARTIAL
       \<and> statusWrites w' = [RUNNING, PARTIAL]" by blast
  from c p3 s1 have three: "\<exists>w1 w2 j. runCatalogJob 1 ?none ''j1'' sampleWorld
                  = Throws (Error ''Missing offline session for shop.example'') w1
       \<and> workerRun 1 ?none ''j1'' sampleWorld
           = Throws (Error ''Missing offline session for shop.example'') w2
       \<and> jobs w2 ''j1'' = Some j \<and> jobStatusOf j = FAILED
       \<and> errorSummary j = Some ''Missing offline session for shop.example''
       \<and> statusWrites w1 = [] \<and> statusWrites w2 = [FAILED]" by auto
  from one two three show ?thesis by (intro conjI)
qed

subsection \<open>Download retries and counts\<close>

lemma inTurn_fields:
  "failure (inTurn ev) = failure ev" "http (inTurn ev) = http ev" "latency (inTurn ev) = latency ev"
  "schedule (inTurn ev) n = n"
  by (simp_all add: inTurn_def)

lemmas race_defs = pool_defs io_defs sampleEnv_fields inTurn_fields sampleWorld_def sampleJob_def
  noUpdate_def applyUpdate_def Let_def flakyCdn_def pngResponse_def sampleRecord_def cupRecord_def
  countOf_def mod_Suc

lemma race_success:
  "\<exists>rs w'. downloadCovers (inTurn (sampleEnv (flakyCdn [1, 2, 3, 4]))) ''j1''
              [sampleRecord None, cupRecord] sampleWorld = Returns (rs, False) w'
     \<and> map localCoverPath rs = [Some ''jobs/j1/images/products/mug/cover.png'',
                                 Some ''jobs/j1/images/products/cup/cover.png'']
     \<and> jobIssues w' = []
     \<and> countOf productsProcessed w' ''j1'' = 1 \<and> countOf imagesDownloaded w' ''j1'' = 1
     \<and> countOf imagesFailed w' ''j1'' = 0"
  by (simp add: race_defs)

lemma race_failure:
  "\<exists>w'. downloadCovers (inTurn (sampleEnv (\<lambda>n. FetchRejected))) ''j1''
           [sampleRecord None, cupRecord] sampleWorld
           = Returns ([sampleRecord None, cupRecord], True) w'
     \<and> map issueTypeOf (jobIssues w') = [IMAGE_DOWNLOAD_FAILED, IMAGE_DOWNLOAD_FAILED]
     \<and> map issueProductId (jobIssues w') = [''gid://shopify/Product/2'', ''gid://shopify/Product/1'']
     \<and> countOf productsProcessed w' ''j1'' = 1 \<and> countOf imagesFailed w' ''j1'' = 1
     \<and> countOf imagesDownloaded w' ''j1'' = 0"
  by (simp add: race_defs)

lemma one_after_the_other:
  "\<exists>rs w'. downloadCovers (sampleEnv (flakyCdn [1, 2, 7, 8])) ''j1''
              [sampleRecord None, cupRecord] sampleWorld = Returns (rs, False) w'
     \<and> map localCoverPath rs = [Some ''jobs/j1/images/products/mug/cover.png'',
                                 Some ''jobs/j1/images/products/cup/cover.png'']
     \<and> jobIssues w' = []
     \<and> countOf productsProcessed w' ''j1'' = 2 \<and> countOf imagesDownloaded w' ''j1'' = 2
     \<and> countOf imagesFailed w' ''j1'' = 0"
  by (simp add: race_defs)

text \<open>
  C3. A record with a cover URL whose fetch fails twice and succeeds on the third attempt
  is to record no issue and to add one to \<open>imagesDownloaded\<close> and to \<open>productsProcessed\<close>;
  one whose three attempts fail is to record exactly one \<open>IMAGE_DOWNLOAD_FAILED\<close> issue and
  to add one to \<open>imagesFailed\<close> and to \<open>productsProcessed\<close>. The issues are recorded so, but
  the counts are not kept: \<open>incrementCounts\<close> reads the counts and writes the sum back in two
  calls, and the workers change over between them. With two such records and two workers
  whose calls settle in turn, both workers read the counts before either writes, and
  \<open>downloadCovers\<close> returns with both covers stored (or both issues recorded) and every count
  at 1; when the calls of the first worker all settle before those of the second, the
  counts are 2.
\<close>

theorem downloadCovers_counts_lost:
  "(\<exists>rs w'. downloadCovers (inTurn (sampleEnv (flakyCdn [1, 2, 3, 4]))) ''j1''
              [sampleRecord None, cupRecord] sampleWorld = Returns (rs, False) w'
     \<and> map localCoverPath rs = [Some ''jobs/j1/images/products/mug/cover.png'',
                                 Some ''jobs/j1/images/products/cup/cover.png'']
     \<and> jobIssues w' = []
     \<and> countOf productsProcessed w' ''j1'' = 1 \<and> countOf imagesDownloaded w' ''j1'' = 1
     \<and> countOf imagesFailed w' ''j1'' = 0)
   \<and> (\<exists>w'. downloadCovers (inTurn (sampleEnv (\<lambda>n. FetchRejected))) ''j1''
           [sampleRecord None, cupRecord] sampleWorld
           = Returns ([sampleRecord None, cupRecord], True) w'
     \<and> map issueTypeOf (jobIssues w') = [IMAGE_DOWNLOAD_FAILED, IMAGE_DOWNLOAD_FAILED]
     \<and> map issueProductId (jobIssues w') = [''gid://shopify/Product/2'', ''gid://shopify/Product/1'']
     \<and> countOf productsProcessed w' ''j1'' = 1 \<and> countOf imagesFailed w' ''j1'' = 1
     \<and> countOf imagesDownloaded w' ''j1'' = 0)
   \<and> (\<exists>rs w'. downloadCovers (sampleEnv (flakyCdn [1, 2, 7, 8])) ''j1''
              [sampleRecord None, cupRecord] sampleWorld = Returns (rs, False) w'
     \<and> map localCoverPath rs = [Some ''jobs/j1/images/products/mug/cover.png'',
                                 Some ''jobs/j1/images/products/cup/cover.png'']
     \<and> jobIssues w' = []
     \<and> countOf productsProcessed w' ''j1'' = 2 \<and> countOf imagesDownloaded w' ''j1'' = 2
     \<and> countOf imagesFailed w' ''j1'' = 0)"
  using race_success race_failure one_after_the_other by (intro conjI)

subsection \<open>Fallback to the paginated fetch\<close>

lemma extractProducts_catch:
  "bulkExtract ev client (buildBulkQuery settings) w = Throws e w1
     \<Longrightarrow> extractProducts fuel ev client ident settings w
         = bindIO (jobUpdateIO ev ident fallbackStep)
             (\<lambda>_. fetchProductsPaginated fuel ev client settings) w1"
  by (simp add: extractProducts_def catchIO_def)

lemma paginate_requests:
  "\<exists>cursors. requests (worldOf (paginate fuel ev client scopeQuery withCollections cursor products w))
      = requests w @ map (ProductsPage scopeQuery withCollections) cursors"
proof (induction fuel arbitrary: cursor products w)
  case 0
  show ?case by (intro exI [of _ "[]"]) simp
next
  case (Suc fuel)
  let ?w' = "(called ev w)\<lparr> requests := requests w @ [ProductsPage scopeQuery withCollections cursor] \<rparr>"
  show ?case
  proof (cases "graphql ev (tick w) client (ProductsPage scopeQuery withCollections cursor)")
    case (Inl e)
    then show ?thesis
      by (intro exI [of _ "[cursor]"]) (simp add: clientQuery_def Let_def called_def)
  next
    case (Inr body)
    then have q: "clientQuery ev client (ProductsPage scopeQuery withCollections cursor) w = Returns body ?w'"
      by (simp add: clientQuery_def Let_def)
    have one: "requests ?w' = requests w @ map (ProductsPage scopeQuery withCollections) [cursor]"
      by simp
    show ?thesis
    proof (cases "bodyProducts body")
      case None
      with q show ?thesis by (intro exI [of _ "[cursor]"]) simp
    next
      case (Some payload)
      show ?thesis
      proof (cases "orElse (pageHasNextPage payload) False")
        case False
        with q Some show ?thesis by (intro exI [of _ "[cursor]"]) (simp add: Let_def)
      next
        case True
        let ?c = "if pageEdges payload = [] then cursor else Some (fst (last (pageEdges payload)))"
        let ?p = "products @ map (\<lambda>edge. nodeAccumulator (snd edge)) (pageEdges payload)"
        from Suc.IH [of ?c ?p ?w'] obtain cursors where
          "requests (worldOf (paginate fuel ev client scopeQuery withCollections ?c ?p ?w'))
             = requests ?w' @ map (ProductsPage scopeQuery withCollections) cursors" by blast
        with q Some True show ?thesis
          by (intro exI [of _ "cursor # cursors"]) (simp add: Let_def)
      qed
    qed
  qed
qed


lemma fallback_requests:
  "\<exists>cursors. requests (worldOf (fetchProductsPaginated fuel ev client settings w))
      = requests w @ map (ProductsPage (bulkScopeQuery (buildBulkQuery settings))
                            (bulkWithCollections (buildBulkQuery settings))) cursors"
  unfolding fetchProductsPaginated_def buildBulkQuery_def
  using paginate_requests by simp

lemma submit_rejected:
  "graphql ev (tick w) client (RunBulkOperation q) = Inl err
     \<Longrightarrow> \<exists>w1. bulkExtract ev client q w = Throws err w1"
  by (simp add: bulkExtract_def startBulkOperation_def bindIO_def clientQuery_def Let_def)

lemma submit_refused:
  assumes "graphql ev (tick w) client (RunBulkOperation q) = Inr body"
    and "bodyRunQuery body = None \<or> (\<exists>p. bodyRunQuery body = Some p \<and> userErrors p \<noteq> [])"
  shows "\<exists>err w1. bulkExtract ev client q w = Throws err w1"
  using assms
  by (auto simp: bulkExtract_def startBulkOperation_def bindIO_def clientQuery_def Let_def
      throwIO_def)

lemma poll_failed:
  assumes "\<not> bulkMaxWaitMs < clock w - started"
    and "graphql ev (tick w) client (PollBulkOperation bulkId) = Inr body"
    and "bodyNode body = Some node"
    and "nodeStatus node = ''FAILED'' \<or> nodeStatus node = ''CANCELED''"
  shows "\<exists>w1. waitLoop ev client bulkId started w
      = Throws (Error (''Bulk operation '' @ nodeStatus node)) w1"
  using assms by (subst waitLoop.simps) (auto simp: clientQuery_def Let_def)

lemma poll_timed_out:
  "bulkMaxWaitMs < clock w - started
     \<Longrightarrow> waitLoop ev client bulkId started w = Throws (Error ''Bulk operation timed out'') w"
  by (subst waitLoop.simps) simp

lemma waitLoop_ends: "waitLoop ev client bulkId started w \<noteq> OutOfFuel w'"
proof (induction ev client bulkId started w rule: waitLoop.induct)
  case (1 ev client bulkId started w)
  show ?case
  proof (cases "graphql ev (tick w) client (PollBulkOperation bulkId)")
    case (Inl e)
    then show ?thesis by (subst waitLoop.simps) (simp add: clientQuery_def Let_def)
  next
    case (Inr body)
    let ?w1 = "(called ev w)\<lparr> requests := requests w @ [PollBulkOperation bulkId] \<rparr>"
    from Inr have q: "clientQuery ev client (PollBulkOperation bulkId) w = Returns body ?w1"
      by (simp add: clientQuery_def Let_def)
    show ?thesis
    proof (cases "bodyNode body")
      case None
      with q show ?thesis by (subst waitLoop.simps) simp
    next
      case (Some node)
      show ?thesis
      proof (cases "bulkMaxWaitMs < clock w - started
          \<or> (nodeStatus node = ''COMPLETED'' \<and> truthy (nodeUrl node))
          \<or> nodeStatus node = ''FAILED'' \<or> nodeStatus node = ''CANCELED''")
        case True
        with q Some show ?thesis by (subst waitLoop.simps) auto
      next
        case False
        with "1.IH" [OF _ q Some] q Some show ?thesis
          by (subst waitLoop.simps) simp
      qed
    qed
  qed
qed

lemma download_failed:
  assumes "http ev (tick w) url = FetchRejected
      \<or> (\<exists>r. http ev (tick w) url = Response r \<and> (\<not> responseOk r \<or> responseLines r = None))"
  shows "\<exists>err w1. parseBulkResults ev url w = Throws err w1"
  using assms by (auto simp: parseBulkResults_def bindIO_def fetchUrl_def throwIO_def)

lemma wait_failure_leaves_try:
  "startBulkOperation ev client q w = Returns bulkId w0
     \<Longrightarrow> waitForBulkResult ev client bulkId w0 = Throws err w1
     \<Longrightarrow> bulkExtract ev client q w = Throws err w1"
  by (simp add: bulkExtract_def bindIO_def)

lemma parse_failure_leaves_try:
  "startBulkOperation ev client q w = Returns bulkId w0
     \<Longrightarrow> waitForBulkResult ev client bulkId w0 = Returns url w1
     \<Longrightarrow> parseBulkResults ev url w1 = Throws err w2
     \<Longrightarrow> bulkExtract ev client q w = Throws err w2"
  by (simp add: bulkExtract_def bindIO_def)

lemma run_goes_on:
  assumes "jobFindUnique ev ident w = Returns (Some j) wa"
    and "guarded ev (returnIO (loadSession ev (''offline_'' @ jobShopDomain j))) wa
           = Returns (Some client) wb"
    and "jobUpdateIO ev ident (startStep (clock wb)) wb = Returns () wc"
    and "bulkExtract ev client (buildBulkQuery (orElse (settingsJson j) emptySettings)) wc = Throws e wd"
    and "jobUpdateIO ev ident fallbackStep wd = Returns () we"
    and "fetchProductsPaginated fuel ev client (orElse (settingsJson j) emptySettings) we = Returns ps wg"
  shows "runCatalogJob fuel ev ident w
      = finishJob ev ident (jobShopDomain j) (orElse (settingsJson j) emptySettings) ps wg"
proof -
  from assms(4,5,6) have "extractProducts fuel ev client ident (orElse (settingsJson j) emptySettings) wc
      = Returns ps wg"
    by (simp add: extractProducts_catch bindIO_def)
  with assms(1,2,3) show ?thesis
    unfolding runCatalogJob_def Let_def
    by (simp add: bindIO_def withClock_def)
qed

text \<open>
  C7. A failure of the bulk path is caught inside \<open>runCatalogJob\<close>: whatever the bulk path
  throws, extraction goes on with the fallback step and the paginated fetch; every request of
  the paginated fetch carries the selection predicate and the collections flag of the bulk
  query; and when the fallback returns, the run is the rest of the pipeline on the paginated
  products. The causes named are each a throw of the bulk path: a rejected or refused submit, a
  poll answering \<open>FAILED\<close> or \<open>CANCELED\<close>, more than ten minutes (600000 ms) on the clock since the
  wait began, and a result that cannot be downloaded; the wait always ends.
\<close>

theorem bulk_failure_falls_back:
  "(\<forall>e w1. bulkExtract ev client (buildBulkQuery settings) w = Throws e w1 \<longrightarrow>
       extractProducts fuel ev client ident settings w
         = bindIO (jobUpdateIO ev ident fallbackStep)
             (\<lambda>_. fetchProductsPaginated fuel ev client settings) w1)
   \<and> (\<exists>cursors. requests (worldOf (fetchProductsPaginated fuel ev client settings w))
          = requests w @ map (ProductsPage (bulkScopeQuery (buildBulkQuery settings))
                                (bulkWithCollections (buildBulkQuery settings))) cursors)
   \<and> (\<forall>j session wa wb wc e wd we ps wg.
         jobFindUnique ev ident w = Returns (Some j) wa
         \<and> guarded ev (returnIO (loadSession ev (''offline_'' @ jobShopDomain j))) wa
             = Returns (Some session) wb
         \<and> jobUpdateIO ev ident (startStep (clock wb)) wb = Returns () wc
         \<and> bulkExtract ev session (buildBulkQuery (orElse (settingsJson j) emptySettings)) wc
             = Throws e wd
         \<and> jobUpdateIO ev ident fallbackStep wd = Returns () we
         \<and> fetchProductsPaginated fuel ev session (orElse (settingsJson j) emptySettings) we
             = Returns ps wg
         \<longrightarrow> runCatalogJob fuel ev ident w
               = finishJob ev ident (jobShopDomain j) (orElse (settingsJson j) emptySettings) ps wg)
   \<and> (\<forall>err. graphql ev (tick w) client (RunBulkOperation q) = Inl err \<longrightarrow>
         (\<exists>w1. bulkExtract ev client q w = Throws err w1))
   \<and> (\<forall>body. graphql ev (tick w) client (RunBulkOperation q) = Inr body
         \<and> (bodyRunQuery body = None \<or> (\<exists>p. bodyRunQuery body = Some p \<and> userErrors p \<noteq> []))
         \<longrightarrow> (\<exists>err w1. bulkExtract ev client q w = Throws err w1))
   \<and> (\<forall>body node. \<not> bulkMaxWaitMs < clock w - started
         \<and> graphql ev (tick w) client (PollBulkOperation bulkId) = Inr body
         \<and> bodyNode body = Some node
         \<and> (nodeStatus node = ''FAILED'' \<or> nodeStatus node = ''CANCELED'')
         \<longrightarrow> (\<exists>w1. waitLoop ev client bulkId started w
                     = Throws (Error (''Bulk operation '' @ nodeStatus node)) w1))
   \<and> bulkMaxWaitMs = 600000
   \<and> (bulkMaxWaitMs < clock w - started \<longrightarrow>
         waitLoop ev client bulkId started w = Throws (Error ''Bulk operation timed out'') w)
   \<and> (\<forall>w'. waitLoop ev client bulkId started w \<noteq> OutOfFuel w')
   \<and> (http ev (tick w) url = FetchRejected
         \<or> (\<exists>r. http ev (tick w) url = Response r \<and> (\<not> responseOk r \<or> responseLines r = None))
         \<longrightarrow> (\<exists>err w1. parseBulkResults ev url w = Throws err w1))
   \<and> (\<forall>i w0 err w1. startBulkOperation ev client q w = Returns i w0
         \<and> waitForBulkResult ev client i w0 = Throws err w1
         \<longrightarrow> bulkExtract ev client q w = Throws err w1)
   \<and> (\<forall>i w0 u w1 err w2. startBulkOperation ev client q w = Returns i w0
         \<and> waitForBulkResult ev client i w0 = Returns u w1
         \<and> parseBulkResults ev u w1 = Throws err w2
         \<longrightarrow> bulkExtract ev client q w = Throws err w2)"
proof -
  note a = extractProducts_catch [where ev = ev and client = client and settings = settings
      and w = w and fuel = fuel and ident = ident]
  note b = fallback_requests [where fuel = fuel and ev = ev and client = client
      and settings = settings and w = w]
  note c = run_goes_on [where ev = ev and ident = ident and w = w and fuel = fuel]
  note d = submit_rejected [where ev = ev and w = w and client = client and q = q]
  note e = submit_refused [where ev = ev and w = w and client = client and q = q]
  note f = poll_failed [where ev = ev and w = w and client = client and started = started
      and bulkId = bulkId]
  have g: "bulkMaxWaitMs = 600000" by (simp add: bulkMaxWaitMs_def)
  note h = poll_timed_out [where ev = ev and w = w and client = client and started = started
      and bulkId = bulkId]
  note i = waitLoop_ends [where ev = ev and w = w and client = client and started = started
      and bulkId = bulkId]
  note k = download_failed [where ev = ev and w = w and url = url]
  note l = wait_failure_leaves_try [where ev = ev and w = w and client = client and q = q]
  note m = parse_failure_leaves_try [where ev = ev and w = w and client = client and q = q]
  show ?thesis
    apply (intro conjI)
    subgoal using a by blast
    subgoal using b by blast
    subgoal using c by blast
    subgoal using d by blast
    subgoal using e by blast
    subgoal using f by blast
    subgoal using g by blast
    subgoal using h by blast
    subgoal using i by blast
    subgoal using k by blast
    subgoal using l by blast
    subgoal using m by blast
    done
qed

theorem bulk_failure_falls_back_witness:
  "(\<exists>w1. bulkExtract (sampleEnv (\<lambda>n. pngResponse)) sampleSession (buildBulkQuery emptySettings)
            sampleWorld = Throws (Error ''Bulk operation FAILED'') w1
       \<and> extractProducts 1 (sampleEnv (\<lambda>n. pngResponse)) sampleSession ''j1'' emptySettings
            sampleWorld
           = bindIO (jobUpdateIO (sampleEnv (\<lambda>n. pngResponse)) ''j1'' fallbackStep)
               (\<lambda>_. fetchProductsPaginated 1 (sampleEnv (\<lambda>n. pngResponse)) sampleSession
                      emptySettings) w1)
   \<and> (\<exists>w2. extractProducts 1 (sampleEnv (\<lambda>n. pngResponse)) sampleSession ''j1'' emptySettings
              sampleWorld = Returns [nodeAccumulator sampleNode] w2)
   \<and> (\<exists>w1. waitLoop (sampleEnv (\<lambda>n. pngResponse)) sampleSession ''gid://shopify/BulkOperation/1''
              1000 sampleWorld = Throws (Error ''Bulk operation FAILED'') w1)
   \<and> waitLoop (sampleEnv (\<lambda>n. pngResponse)) sampleSession ''gid://shopify/BulkOperation/1''
        0 (sampleWorld\<lparr> clock := 600001 \<rparr>)
       = Throws (Error ''Bulk operation timed out'') (sampleWorld\<lparr> clock := 600001 \<rparr>)
   \<and> (\<exists>hf w3. runCatalogJob 1 (sampleEnv (\<lambda>n. pngResponse)) ''j1'' sampleWorld = Returns hf w3)"
proof -
  let ?ev = "sampleEnv (\<lambda>n. pngResponse)"
  let ?id = "''gid://shopify/BulkOperation/1''"
  note live = bulk_failure_falls_back [where ev = ?ev and client = sampleSession
      and settings = emptySettings and w = sampleWorld and fuel = 1 and ident = "''j1''"
      and q = "buildBulkQuery emptySettings" and bulkId = ?id and started = 1000 and url = "[]"]
  note late = bulk_failure_falls_back [where ev = ?ev and client = sampleSession
      and settings = emptySettings and w = "sampleWorld\<lparr> clock := 600001 \<rparr>" and fuel = 1
      and ident = "''j1''" and q = "buildBulkQuery emptySettings" and bulkId = ?id
      and started = 0 and url = "[]"]
  from sample_bulk_fails [of "\<lambda>n. pngResponse" sampleSession] obtain w1 where
    t: "bulkExtract ?ev sampleSession (buildBulkQuery emptySettings) sampleWorld
          = Throws (Error ''Bulk operation FAILED'') w1" by blast
  with live [THEN conjunct1]
  have a: "extractProducts 1 ?ev sampleSession ''j1'' emptySettings sampleWorld
           = bindIO (jobUpdateIO ?ev ''j1'' fallbackStep)
               (\<lambda>_. fetchProductsPaginated 1 ?ev sampleSession emptySettings) w1"
    by blast
  have "\<not> bulkMaxWaitMs < clock sampleWorld - 1000"
    "graphql ?ev (tick sampleWorld) sampleSession (PollBulkOperation ?id)
       = Inr \<lparr> bodyRunQuery = None,
               bodyNode = Some \<lparr> nodeStatus = ''FAILED'', nodeUrl = None \<rparr>,
               bodyProducts = None \<rparr>"
    by (simp_all add: sampleEnv_fields sampleShop_def sampleWorld_def bulkMaxWaitMs_def)
  with live [THEN conjunct2, THEN conjunct2, THEN conjunct2, THEN conjunct2, THEN conjunct2,
      THEN conjunct1, THEN spec, THEN spec,
      of "\<lparr> bodyRunQuery = None,
               bodyNode = Some \<lparr> nodeStatus = ''FAILED'', nodeUrl = None \<rparr>,
               bodyProducts = None \<rparr>" "\<lparr> nodeStatus = ''FAILED'', nodeUrl = None \<rparr>"]
  have b: "\<exists>w1. waitLoop ?ev sampleSession ?id 1000 sampleWorld
      = Throws (Error ''Bulk operation FAILED'') w1"
    by simp
  have "bulkMaxWaitMs < clock (sampleWorld\<lparr> clock := 600001 \<rparr>) - 0"
    by (simp add: bulkMaxWaitMs_def)
  with late [THEN conjunct2, THEN conjunct2, THEN conjunct2, THEN conjunct2, THEN conjunct2,
      THEN conjunct2, THEN conjunct2, THEN conjunct1]
  have c: "waitLoop ?ev sampleSession ?id 0 (sampleWorld\<lparr> clock := 600001 \<rparr>)
       = Throws (Error ''Bulk operation timed out'') (sampleWorld\<lparr> clock := 600001 \<rparr>)"
    by blast
  from t a have "\<exists>w1. bulkExtract ?ev sampleSession (buildBulkQuery emptySettings) sampleWorld
        = Throws (Error ''Bulk operation FAILED'') w1
       \<and> extractProducts 1 ?ev sampleSession ''j1'' emptySettings sampleWorld
           = bindIO (jobUpdateIO ?ev ''j1'' fallbackStep)
               (\<lambda>_. fetchProductsPaginated 1 ?ev sampleSession emptySettings) w1"
    by blast
  moreover note sample_fallback_returns [of "\<lambda>n. pngResponse" sampleSession] b c
  moreover have "\<exists>hf w3. runCatalogJob 1 ?ev ''j1'' sampleWorld = Returns hf w3"
    using sample_run_completed by blast
  ultimately show ?thesis by (intro conjI)
qed



end
